theory Spec2Isabelle
  imports Complex_Main "HOL-Library.Word" "HOL-Library.Log_Nat"
begin

section \<open>Python floats: IEEE 754 binary64\<close>

text \<open>
  Every argument and result of \<^verbatim>\<open>ops.py\<close> is a Python \<^verbatim>\<open>float\<close>, that is an IEEE 754
  binary64 value. A float is modelled by its 64-bit pattern: bit 63 is the sign, bits
  52..62 the biased exponent, bits 0..51 the fraction. Every 64-bit word is a float, so
  no well-formedness side condition is needed anywhere.

  The arithmetic is the default one of CPython: round to nearest, ties to even, gradual
  underflow, overflow to infinity. Exact intermediate values are rationals. The payload
  of a NaN result is not modelled (every NaN the arithmetic produces is the quiet NaN
  \<open>qnan\<close>); no Python comparison can observe it.
\<close>

type_synonym double = "64 word"

definition inf_bits :: int where
  "inf_bits = 2047 * 2 ^ 52"

definition fsign :: "double \<Rightarrow> bool" where
  "fsign w = (2 ^ 63 \<le> uint w)"

definition fbits :: "double \<Rightarrow> int" where
  \<comment> \<open>biased exponent and fraction, read as one number\<close>
  "fbits w = uint w mod 2 ^ 63"

definition is_nan :: "double \<Rightarrow> bool" where
  "is_nan w = (inf_bits < fbits w)"

definition is_inf :: "double \<Rightarrow> bool" where
  "is_inf w = (fbits w = inf_bits)"

definition is_finite :: "double \<Rightarrow> bool" where
  "is_finite w = (fbits w < inf_bits)"

definition is_zero :: "double \<Rightarrow> bool" where
  "is_zero w = (fbits w = 0)"

definition pow2 :: "int \<Rightarrow> rat" where
  "pow2 e = (if 0 \<le> e then 2 ^ nat e else 1 / 2 ^ nat (- e))"

definition fmag :: "double \<Rightarrow> rat" where
  \<comment> \<open>the absolute value of a finite float\<close>
  "fmag w = (let E = fbits w div 2 ^ 52; F = fbits w mod 2 ^ 52 in
     if E = 0 then of_int F * pow2 (- 1074)
     else of_int (2 ^ 52 + F) * pow2 (E - 1075))"

definition valof :: "double \<Rightarrow> rat" where
  "valof w = (if fsign w then - fmag w else fmag w)"

definition mk_double :: "bool \<Rightarrow> int \<Rightarrow> double" where
  "mk_double s b = word_of_int ((if s then 2 ^ 63 else 0) + b)"

definition qnan :: double where
  "qnan = mk_double False (inf_bits + 2 ^ 51)"

definition finf :: "bool \<Rightarrow> double" where
  "finf s = mk_double s inf_bits"

definition fzero :: "bool \<Rightarrow> double" where
  "fzero s = mk_double s 0"

subsection \<open>Rounding\<close>

definition ilog2 :: "rat \<Rightarrow> int" where
  \<comment> \<open>\<open>\<lfloor>log\<^sub>2 r\<rfloor>\<close> for \<open>r > 0\<close>, from the bit length of the integer part of \<open>r\<close> or
      of \<open>1 / r\<close>\<close>
  "ilog2 r = (if 1 \<le> r then bitlen \<lfloor>r\<rfloor> - 1 else - bitlen (\<lceil>1 / r\<rceil> - 1))"

definition round_half_even :: "rat \<Rightarrow> int" where
  "round_half_even x = (let n = \<lfloor>x\<rfloor>; d = x - of_int n in
     if d < 1 / 2 then n else if 1 / 2 < d then n + 1
     else if even n then n else n + 1)"

definition round_bits :: "rat \<Rightarrow> int" where
  \<comment> \<open>The bits of the float nearest to \<open>r \<ge> 0\<close>. With \<open>n\<close> the significand rounded at
      exponent \<open>e\<close>, the pattern is \<open>(e + 1074) * 2\<^sup>5\<^sup>2 + n\<close> for subnormal and normal
      results alike, also when rounding carries into the next binade; a pattern at or
      above that of infinity is an overflow.\<close>
  "round_bits r = (if r = 0 then 0 else
     let e = max (- 1074) (ilog2 r - 52); n = round_half_even (r / pow2 e)
     in min inf_bits ((e + 1074) * 2 ^ 52 + n))"

definition fround :: "bool \<Rightarrow> rat \<Rightarrow> double" where
  "fround s r = mk_double s (round_bits r)"

definition lit :: "rat \<Rightarrow> double" where
  \<comment> \<open>a decimal literal of the source: the nearest float\<close>
  "lit r = fround (r < 0) \<bar>r\<bar>"

subsection \<open>Arithmetic and comparison\<close>

definition fneg :: "double \<Rightarrow> double" where
  "fneg w = mk_double (\<not> fsign w) (fbits w)"

definition fadd :: "double \<Rightarrow> double \<Rightarrow> double" where
  "fadd x y =
     (if is_nan x \<or> is_nan y then qnan
      else if is_inf x then (if is_inf y \<and> fsign x \<noteq> fsign y then qnan else finf (fsign x))
      else if is_inf y then finf (fsign y)
      else let r = valof x + valof y in
        if r = 0 then fzero (fsign x \<and> fsign y) else fround (r < 0) \<bar>r\<bar>)"

definition fsub :: "double \<Rightarrow> double \<Rightarrow> double" where
  "fsub x y = fadd x (fneg y)"

definition fmul :: "double \<Rightarrow> double \<Rightarrow> double" where
  "fmul x y =
     (if is_nan x \<or> is_nan y then qnan
      else if is_inf x \<or> is_inf y then
        (if is_zero x \<or> is_zero y then qnan else finf (fsign x \<noteq> fsign y))
      else fround (fsign x \<noteq> fsign y) (fmag x * fmag y))"

definition fdiv :: "double \<Rightarrow> double \<Rightarrow> double" where
  \<comment> \<open>IEEE division by a divisor that is not zero\<close>
  "fdiv x y =
     (if is_nan x \<or> is_nan y then qnan
      else if is_inf x then (if is_inf y then qnan else finf (fsign x \<noteq> fsign y))
      else if is_inf y then fzero (fsign x \<noteq> fsign y)
      else fround (fsign x \<noteq> fsign y) (fmag x / fmag y))"

definition flt :: "double \<Rightarrow> double \<Rightarrow> bool" where
  "flt x y = (\<not> is_nan x \<and> \<not> is_nan y \<and>
     (if is_inf x then fsign x \<and> \<not> (is_inf y \<and> fsign y)
      else if is_inf y then \<not> fsign y
      else valof x < valof y))"

definition feq :: "double \<Rightarrow> double \<Rightarrow> bool" where
  "feq x y = (\<not> is_nan x \<and> \<not> is_nan y \<and>
     (if is_inf x then is_inf y \<and> fsign x = fsign y
      else \<not> is_inf y \<and> valof x = valof y))"

definition fle :: "double \<Rightarrow> double \<Rightarrow> bool" where
  "fle x y = (flt x y \<or> feq x y)"

definition fge :: "double \<Rightarrow> double \<Rightarrow> bool" where
  "fge x y = fle y x"

subsection \<open>The operators of Python on floats\<close>

datatype py_error = ZeroDivisionError | OverflowError | ValueError

definition py_truediv :: "double \<Rightarrow> double \<Rightarrow> py_error + double" where
  \<comment> \<open>\<^verbatim>\<open>x / y\<close>: CPython tests \<^verbatim>\<open>y == 0.0\<close> first and raises\<close>
  "py_truediv x y = (if is_zero y then Inl ZeroDivisionError else Inr (fdiv x y))"

text \<open>
  \<^verbatim>\<open>x ** 2\<close> is CPython's \<^verbatim>\<open>float_pow\<close> with the exponent \<open>2.0\<close>. It settles NaN, the
  infinities, zero and \<open>\<plusminus>1.0\<close> itself, and hands every other base, made positive, to the
  \<^verbatim>\<open>pow\<close> of the C library. The C standard leaves the rounding of \<^verbatim>\<open>pow\<close> open, and
  the libraries in use do not round it correctly: \<^verbatim>\<open>u ** 2\<close> and \<^verbatim>\<open>u * u\<close> differ in the
  last bit for some \<open>u\<close>. So the library function is a parameter of the model: it gives
  the result of \<^verbatim>\<open>pow(x, 2.0)\<close> and the \<^verbatim>\<open>errno\<close> that the call leaves behind.
\<close>

datatype c_errno = ENONE | ERANGE | EDOM

type_synonym libm_pow = "double \<Rightarrow> double \<times> c_errno"

definition fabs :: "double \<Rightarrow> double" where
  "fabs w = mk_double False (fbits w)"

definition adjust_erange :: "double \<Rightarrow> c_errno \<Rightarrow> c_errno" where
  \<comment> \<open>CPython's \<^verbatim>\<open>_Py_ADJUST_ERANGE1\<close>: an infinite result counts as a range error
      also when the library did not report it, a zero result never does\<close>
  "adjust_erange x e =
     (if e = ENONE then (if is_inf x then ERANGE else ENONE)
      else if e = ERANGE \<and> is_zero x then ENONE
      else e)"

definition py_pow2 :: "libm_pow \<Rightarrow> double \<Rightarrow> py_error + double" where
  \<comment> \<open>\<^verbatim>\<open>EDOM\<close> stands for every \<^verbatim>\<open>errno\<close> other than \<^verbatim>\<open>ERANGE\<close>\<close>
  "py_pow2 pw x =
     (if is_nan x then Inr x
      else if is_inf x then Inr (finf False)
      else if is_zero x then Inr (fzero False)
      else if feq (fabs x) (lit 1) then Inr (lit 1)
      else let (p, e) = pw (fabs x) in
        (case adjust_erange p e of
           ENONE \<Rightarrow> Inr p
         | ERANGE \<Rightarrow> Inl OverflowError
         | EDOM \<Rightarrow> Inl ValueError))"

definition pow_correctly_rounded :: libm_pow where
  \<comment> \<open>One C library: its \<^verbatim>\<open>pow(x, 2.0)\<close> is the correctly rounded square, and it
      reports a range error on overflow and on underflow to zero, as glibc does. It is
      used below only at bases whose square is a power of two or overflows, where every
      library with an error under one unit in the last place returns the same.\<close>
  "pow_correctly_rounded x =
     (let p = fround False (fmag x * fmag x)
      in (p, if is_inf p \<or> is_zero p then ERANGE else ENONE))"

section \<open>The model equations of ops.py\<close>

definition calc_rhs :: "double \<Rightarrow> double \<Rightarrow> double" where
  "calc_rhs J_in J_out = fadd J_in J_out"

definition calc_dh :: "double \<Rightarrow> double \<Rightarrow> double \<Rightarrow> double \<Rightarrow> double \<Rightarrow> py_error + double" where
  "calc_dh h u tau_close tau_open u_gate =
     (if flt u u_gate then py_truediv (fsub (lit 1) h) tau_open
      else py_truediv (fneg h) tau_close)"

definition calc_J_in :: "libm_pow \<Rightarrow> double \<Rightarrow> double \<Rightarrow> double \<Rightarrow> py_error + double" where
  \<comment> \<open>the first argument is the \<^verbatim>\<open>pow\<close> of the platform, which \<^verbatim>\<open>u**2\<close> calls\<close>
  "calc_J_in pw u h tau_in =
     (case py_pow2 pw u of
        Inl err \<Rightarrow> Inl err
      | Inr usq \<Rightarrow> let C = fmul usq (fsub (lit 1) u) in py_truediv (fmul h C) tau_in)"

definition calc_J_out :: "double \<Rightarrow> double \<Rightarrow> py_error + double" where
  "calc_J_out u tau_out = py_truediv (fneg u) tau_out"

subsection \<open>The default tables\<close>

text \<open>
  \<^verbatim>\<open>get_variables\<close> and \<^verbatim>\<open>get_parameters\<close> evaluate a dict display, which allocates a
  new dict object at every call. Dicts are mutable and callers hold references to them,
  so the store is explicit: a reference is an index into the list of all dicts allocated
  so far, and a call returns the reference of its dict together with the new store.
\<close>

type_synonym pydict = "string \<rightharpoonup> double"

type_synonym ref = nat

type_synonym heap = "pydict list"

definition new_dict :: "pydict \<Rightarrow> heap \<Rightarrow> ref \<times> heap" where
  "new_dict d hp = (length hp, hp @ [d])"

definition deref :: "heap \<Rightarrow> ref \<Rightarrow> pydict option" where
  "deref hp r = (if r < length hp then Some (hp ! r) else None)"

definition mutate :: "heap \<Rightarrow> ref \<Rightarrow> (pydict \<Rightarrow> pydict) \<Rightarrow> heap option" where
  \<comment> \<open>any in-place change of the dict behind a reference: item assignment, deletion,
      \<^verbatim>\<open>update\<close>, \<^verbatim>\<open>clear\<close>\<close>
  "mutate hp r f = (if r < length hp then Some (hp[r := f (hp ! r)]) else None)"

definition default_variables :: pydict where
  "default_variables = [''u'' \<mapsto> lit 0, ''h'' \<mapsto> lit 1]"

definition default_parameters :: pydict where
  "default_parameters =
     [''tau_close'' \<mapsto> lit 150, ''tau_open'' \<mapsto> lit 120, ''tau_out'' \<mapsto> lit 6,
      ''tau_in'' \<mapsto> lit (3 / 10), ''u_gate'' \<mapsto> lit (13 / 100)]"

definition get_variables :: "heap \<Rightarrow> ref \<times> heap" where
  "get_variables hp = new_dict default_variables hp"

definition get_parameters :: "heap \<Rightarrow> ref \<times> heap" where
  "get_parameters hp = new_dict default_parameters hp"

subsection \<open>Outcomes\<close>

definition returns_zero :: "py_error + double \<Rightarrow> bool" where
  \<comment> \<open>the call returns, and its result \<^verbatim>\<open>== 0.0\<close>\<close>
  "returns_zero res = (case res of Inl err \<Rightarrow> False | Inr v \<Rightarrow> feq v (lit 0))"

definition underflows :: "double \<Rightarrow> double \<Rightarrow> bool" where
  \<comment> \<open>the exact quotient \<open>x / t\<close> is positive, and so small that it rounds to zero\<close>
  "underflows x t = (0 < valof x / valof t \<and> valof x / valof t \<le> pow2 (- 1075))"

definition same_float :: "double \<Rightarrow> double \<Rightarrow> bool" where
  \<comment> \<open>two floats that no comparison of Python tells apart: they are \<^verbatim>\<open>==\<close>, or both NaN\<close>
  "same_float x y = (feq x y \<or> (is_nan x \<and> is_nan y))"

definition same_outcome :: "py_error + double \<Rightarrow> py_error + double \<Rightarrow> bool" where
  \<comment> \<open>two calls that raise the same error, or return the same float\<close>
  "same_outcome a b =
     (case a of
        Inl e \<Rightarrow> (case b of Inl e' \<Rightarrow> e = e' | Inr y \<Rightarrow> False)
      | Inr x \<Rightarrow> (case b of Inl e' \<Rightarrow> False | Inr y \<Rightarrow> same_float x y))"

section \<open>Facts about the float model\<close>

lemma inf_bits_val: "inf_bits = 9218868437227405312"
  by (simp add: inf_bits_def)

lemma fbits_range: "0 \<le> fbits w \<and> fbits w < 2 ^ 63"
  by (simp add: fbits_def)

lemma uint_double_of_int:
  "0 \<le> k \<Longrightarrow> k < 2 ^ 64 \<Longrightarrow> uint (word_of_int k :: double) = k"
  by (simp add: uint_word_of_int take_bit_eq_mod)

lemma uint_mk_double:
  assumes "0 \<le> b" "b < 2 ^ 63"
  shows "uint (mk_double s b) = (if s then 2 ^ 63 else 0) + b"
  unfolding mk_double_def using assms by (intro uint_double_of_int) auto

lemma mk_double_sign: "0 \<le> b \<Longrightarrow> b < 2 ^ 63 \<Longrightarrow> fsign (mk_double s b) = s"
  by (simp add: fsign_def uint_mk_double)

lemma mk_double_bits: "0 \<le> b \<Longrightarrow> b < 2 ^ 63 \<Longrightarrow> fbits (mk_double s b) = b"
  by (simp add: fbits_def uint_mk_double)

lemma finite_not_nan: "is_finite w \<Longrightarrow> \<not> is_nan w"
  by (simp add: is_finite_def is_nan_def)

lemma finite_not_inf: "is_finite w \<Longrightarrow> \<not> is_inf w"
  by (simp add: is_finite_def is_inf_def)

lemma round_half_even_nonneg: "0 \<le> x \<Longrightarrow> 0 \<le> round_half_even x"
  by (simp add: round_half_even_def Let_def)

lemma pow2_pos: "0 < pow2 e"
  by (simp add: pow2_def)

lemma round_bits_range: "0 \<le> r \<Longrightarrow> 0 \<le> round_bits r \<and> round_bits r \<le> inf_bits"
proof -
  assume r: "0 \<le> r"
  define e where "e = max (- 1074) (ilog2 r - 52)"
  have "0 \<le> r / pow2 e"
    using r pow2_pos [of e] by simp
  then have n: "0 \<le> round_half_even (r / pow2 e)"
    by (rule round_half_even_nonneg)
  have "0 \<le> e + 1074"
    by (simp add: e_def)
  then have "0 \<le> (e + 1074) * 2 ^ 52 + round_half_even (r / pow2 e)"
    using n by simp
  then show ?thesis
    by (simp add: round_bits_def Let_def e_def [symmetric] inf_bits_val)
qed

lemma fround_not_nan: "0 \<le> r \<Longrightarrow> \<not> is_nan (fround s r)"
  using round_bits_range [of r]
  by (simp add: is_nan_def fround_def mk_double_bits inf_bits_val)

lemma fround_sign: "0 \<le> r \<Longrightarrow> fsign (fround s r) = s"
  using round_bits_range [of r]
  by (simp add: fround_def mk_double_sign inf_bits_val)

lemma fzero_not_nan: "\<not> is_nan (fzero s)"
  by (simp add: is_nan_def fzero_def mk_double_bits inf_bits_val)

lemma fzero_is_zero: "is_zero (fzero s)"
  by (simp add: is_zero_def fzero_def mk_double_bits)

lemma finf_is_inf: "is_inf (finf s)"
  by (simp add: is_inf_def finf_def mk_double_bits inf_bits_val)

lemma qnan_is_nan: "is_nan qnan"
  by (simp add: is_nan_def qnan_def mk_double_bits inf_bits_val)

subsection \<open>Powers of two and the binary logarithm\<close>

lemma pow2_powi: "pow2 e = 2 powi e"
  by (simp add: pow2_def power_int_def power_one_over inverse_eq_divide)

lemma pow2_add: "pow2 (a + b) = pow2 a * pow2 b"
  by (simp add: pow2_powi power_int_add)

lemma pow2_mono: "a \<le> b \<Longrightarrow> pow2 a \<le> pow2 b"
  by (simp add: pow2_powi power_int_increasing)

lemma pow2_strict_mono: "a < b \<Longrightarrow> pow2 a < pow2 b"
  by (simp add: pow2_powi power_int_strict_increasing)

lemma pow2_le_iff: "pow2 a \<le> pow2 b \<longleftrightarrow> a \<le> b"
  using pow2_mono [of a b] pow2_strict_mono [of b a] by (auto simp: not_le [symmetric])

lemma pow2_less_iff: "pow2 a < pow2 b \<longleftrightarrow> a < b"
  using pow2_mono [of b a] pow2_strict_mono [of a b] by (auto simp: not_less [symmetric])

lemma pow2_of_nat: "0 \<le> e \<Longrightarrow> pow2 e = 2 ^ nat e"
  by (simp add: pow2_def)

lemma pow2_neg: "pow2 (- e) = 1 / pow2 e"
  by (simp add: pow2_powi power_int_minus_divide)

lemma ilog2_bounds:
  assumes "0 < r"
  shows "pow2 (ilog2 r) \<le> r \<and> r < pow2 (ilog2 r + 1)"
proof (cases "1 \<le> r")
  case True
  define n where "n = \<lfloor>r\<rfloor>"
  define k where "k = bitlen n - 1"
  have n: "1 \<le> n" using True by (simp add: n_def le_floor_iff)
  then have b: "2 ^ nat k \<le> n" "n < 2 ^ nat (bitlen n)"
    using bitlen_bounds [of n] by (simp_all add: k_def)
  have k: "0 \<le> k"
    using n bitlen_eq_zero_iff [of n] bitlen_nonneg [of n] by (simp add: k_def)
  have il: "ilog2 r = k"
    using True by (simp add: ilog2_def n_def k_def)
  have "pow2 k = of_int (2 ^ nat k)"
    using k by (simp add: pow2_of_nat)
  also have "\<dots> \<le> of_int n"
    using b(1) by (simp only: of_int_le_iff)
  also have "\<dots> \<le> r"
    by (simp add: n_def)
  finally have lo: "pow2 k \<le> r" .
  have "r < of_int (n + 1)"
    using floor_correct [of r] by (simp add: n_def)
  also have "\<dots> \<le> of_int (2 ^ nat (bitlen n))"
    using b(2) by (subst of_int_le_iff) simp
  also have "\<dots> = pow2 (k + 1)"
    using k by (simp add: pow2_of_nat k_def)
  finally have hi: "r < pow2 (k + 1)" .
  show ?thesis using lo hi il by simp
next
  case False
  define q where "q = 1 / r"
  define m where "m = \<lceil>q\<rceil> - 1"
  define j where "j = bitlen m"
  have q1: "1 < q" using False assms by (simp add: q_def)
  have m: "1 \<le> m" using q1 by (simp add: m_def less_ceiling_iff)
  have mq: "of_int m < q" "q \<le> of_int m + 1"
    using ceiling_correct [of q] by (simp_all add: m_def)
  have b: "2 ^ nat (j - 1) \<le> m" "m < 2 ^ nat j"
    using bitlen_bounds [of m] m by (simp_all add: j_def)
  have j: "1 \<le> j"
    using m bitlen_eq_zero_iff [of m] bitlen_nonneg [of m] by (simp add: j_def)
  have il: "ilog2 r = - j"
    using False by (simp add: ilog2_def q_def m_def j_def)
  have r: "r = 1 / q" using assms by (simp add: q_def)
  have "q \<le> of_int (m + 1)" using mq(2) by simp
  also have "\<dots> \<le> of_int (2 ^ nat j)"
    using b(2) by (subst of_int_le_iff) simp
  also have "\<dots> = pow2 j" using j by (simp add: pow2_of_nat)
  finally have "q \<le> pow2 j" .
  then have lo: "pow2 (- j) \<le> r"
    using q1 by (simp add: r pow2_neg frac_le)
  have "pow2 (j - 1) = of_int (2 ^ nat (j - 1))" using j by (simp add: pow2_of_nat)
  also have "\<dots> \<le> of_int m" using b(1) by (simp only: of_int_le_iff)
  also have "\<dots> < q" by (rule mq(1))
  finally have "pow2 (j - 1) < q" .
  then have "1 / q < 1 / pow2 (j - 1)"
    using pow2_pos [of "j - 1"] by (simp add: frac_less2)
  then have hi: "r < pow2 (- j + 1)"
    using pow2_neg [of "j - 1"] by (simp add: r)
  show ?thesis using lo hi il by simp
qed

lemma ilog2_eqI:
  assumes "pow2 k \<le> r" and "r < pow2 (k + 1)"
  shows "ilog2 r = k"
proof -
  have "0 < r" using assms(1) pow2_pos [of k] by simp
  then have b: "pow2 (ilog2 r) \<le> r" "r < pow2 (ilog2 r + 1)"
    using ilog2_bounds by simp_all
  have "pow2 (ilog2 r) < pow2 (k + 1)" using b(1) assms(2) by simp
  then have 1: "ilog2 r < k + 1" by (simp add: pow2_less_iff)
  have "pow2 k < pow2 (ilog2 r + 1)" using b(2) assms(1) by simp
  then have 2: "k < ilog2 r + 1" by (simp add: pow2_less_iff)
  show ?thesis using 1 2 by simp
qed


subsection \<open>Rounding to an integer\<close>

lemma round_half_even_ge: "of_int n \<le> x \<Longrightarrow> n \<le> round_half_even x"
proof -
  assume "of_int n \<le> x"
  then have "n \<le> \<lfloor>x\<rfloor>" by (simp add: le_floor_iff)
  then show ?thesis by (simp add: round_half_even_def Let_def)
qed

lemma round_half_even_le: "x \<le> of_int n \<Longrightarrow> round_half_even x \<le> n"
proof (cases "\<lfloor>x\<rfloor> = n")
  case True
  assume "x \<le> of_int n"
  then have "x = of_int n" using True floor_correct [of x] by simp
  then show ?thesis by (simp add: round_half_even_def)
next
  case False
  assume "x \<le> of_int n"
  then have "\<lfloor>x\<rfloor> \<le> n" by (simp add: floor_le_iff)
  then have "\<lfloor>x\<rfloor> + 1 \<le> n" using False by simp
  then show ?thesis by (simp add: round_half_even_def Let_def)
qed

lemma round_half_even_of_int: "round_half_even (of_int n) = n"
  by (simp add: round_half_even_def)

lemma round_half_even_zero_iff:
  assumes "0 \<le> x"
  shows "round_half_even x = 0 \<longleftrightarrow> x \<le> 1 / 2"
proof (cases "\<lfloor>x\<rfloor> = 0")
  case True
  then show ?thesis by (auto simp add: round_half_even_def Let_def)
next
  case False
  have "0 \<le> \<lfloor>x\<rfloor>" using assms by simp
  then have f: "1 \<le> \<lfloor>x\<rfloor>" using False by linarith
  then have "1 \<le> x" by simp
  moreover have "1 \<le> round_half_even x"
    using f by (simp add: round_half_even_def Let_def)
  ultimately show ?thesis by simp
qed

subsection \<open>Rounding to a float\<close>

lemma round_bits_eval:
  assumes "pow2 k \<le> r" and "r < pow2 (k + 1)"
  shows "round_bits r =
    min inf_bits ((max (- 1074) (k - 52) + 1074) * 2 ^ 52
      + round_half_even (r / pow2 (max (- 1074) (k - 52))))"
proof -
  have "r \<noteq> 0" using assms(1) pow2_pos [of k] by auto
  then show ?thesis
    using ilog2_eqI [OF assms] by (simp add: round_bits_def Let_def)
qed

lemma round_bits_zero: "round_bits 0 = 0"
  by (simp add: round_bits_def)

lemma pow2_diff: "pow2 a / pow2 b = pow2 (a - b)"
  using pow2_add [of "a - b" b] pow2_pos [of b] by (simp add: field_simps)

lemma pow2_52: "pow2 52 = 4503599627370496"
  by (simp add: pow2_def)

lemma pow2_53: "pow2 53 = 9007199254740992"
  by (simp add: pow2_def)

lemma round_bits_overflow:
  assumes "pow2 1024 \<le> r"
  shows "round_bits r = inf_bits"
proof -
  define k where "k = ilog2 r"
  have r: "0 < r" using assms pow2_pos [of 1024] by simp
  then have b: "pow2 k \<le> r" "r < pow2 (k + 1)"
    using ilog2_bounds [of r] by (simp_all add: k_def)
  have "pow2 1024 < pow2 (k + 1)" using assms b(2) by simp
  then have k: "1024 \<le> k" by (simp add: pow2_less_iff)
  then have e: "max (- 1074) (k - 52) = k - 52" by simp
  have "pow2 52 = pow2 k / pow2 (k - 52)" by (simp add: pow2_diff)
  also have "\<dots> \<le> r / pow2 (k - 52)"
    using b(1) pow2_pos [of "k - 52"] by (simp add: divide_right_mono)
  finally have "of_int 4503599627370496 \<le> r / pow2 (k - 52)" by (simp add: pow2_52)
  then have n: "4503599627370496 \<le> round_half_even (r / pow2 (k - 52))"
    by (rule round_half_even_ge)
  have "2046 * 4503599627370496 \<le> (k - 52 + 1074) * 4503599627370496"
    using k by simp
  then have "inf_bits \<le> (k - 52 + 1074) * 2 ^ 52 + round_half_even (r / pow2 (k - 52))"
    using n by (simp add: inf_bits_val)
  then show ?thesis
    using round_bits_eval [OF b] by (simp add: e)
qed

lemma round_bits_pow2:
  assumes "- 1022 \<le> K" and "K \<le> 1023"
  shows "round_bits (pow2 K) = (K + 1023) * 2 ^ 52"
proof -
  have b: "pow2 K \<le> pow2 K" "pow2 K < pow2 (K + 1)"
    by (simp_all add: pow2_less_iff)
  have e: "max (- 1074) (K - 52) = K - 52" using assms by simp
  have "pow2 K / pow2 (K - 52) = of_int 4503599627370496"
    by (simp add: pow2_diff pow2_52)
  then have n: "round_half_even (pow2 K / pow2 (K - 52)) = 4503599627370496"
    by (simp only: round_half_even_of_int)
  have "(K - 52 + 1074) * 2 ^ 52 + 4503599627370496 = (K + 1023) * 2 ^ 52"
    by simp
  moreover have "(K + 1023) * 4503599627370496 \<le> 2046 * 4503599627370496"
    using assms by simp
  ultimately show ?thesis
    using round_bits_eval [OF b] by (simp add: e n inf_bits_val)
qed

lemma round_bits_le_one:
  assumes "0 \<le> r" and "r \<le> 1"
  shows "round_bits r < inf_bits"
proof (cases "r = 0")
  case True
  then show ?thesis by (simp add: round_bits_zero inf_bits_val)
next
  case False
  define k where "k = ilog2 r"
  define e where "e = max (- 1074) (k - 52)"
  have r: "0 < r" using assms False by simp
  then have b: "pow2 k \<le> r" "r < pow2 (k + 1)"
    using ilog2_bounds [of r] by (simp_all add: k_def)
  have "pow2 k \<le> pow2 0" using b(1) assms(2) by (simp add: pow2_def)
  then have k: "k \<le> 0" by (simp add: pow2_le_iff)
  have e1: "e \<le> - 52" using k by (simp add: e_def)
  have e2: "k - 52 \<le> e" by (simp add: e_def)
  have "r / pow2 e \<le> pow2 (k + 1) / pow2 e"
    using b(2) pow2_pos [of e] by (simp add: divide_right_mono)
  also have "\<dots> = pow2 (k + 1 - e)" by (rule pow2_diff)
  also have "\<dots> \<le> pow2 53" using e2 by (simp add: pow2_le_iff)
  finally have "r / pow2 e \<le> of_int 9007199254740992" by (simp add: pow2_53)
  then have n: "round_half_even (r / pow2 e) \<le> 9007199254740992"
    by (rule round_half_even_le)
  have "(e + 1074) * 4503599627370496 \<le> 1022 * 4503599627370496"
    using e1 by simp
  then have "(e + 1074) * 2 ^ 52 + round_half_even (r / pow2 e) < inf_bits"
    using n by (simp add: inf_bits_val)
  then show ?thesis
    using round_bits_eval [OF b] by (simp add: e_def)
qed

lemma round_bits_zero_iff:
  assumes "0 \<le> r"
  shows "round_bits r = 0 \<longleftrightarrow> r \<le> pow2 (- 1075)"
proof (cases "r = 0")
  case True
  then show ?thesis using pow2_pos [of "- 1075"] by (simp add: round_bits_zero)
next
  case False
  define k where "k = ilog2 r"
  define e where "e = max (- 1074) (k - 52)"
  define n where "n = round_half_even (r / pow2 e)"
  have r: "0 < r" using assms False by simp
  then have b: "pow2 k \<le> r" "r < pow2 (k + 1)"
    using ilog2_bounds [of r] by (simp_all add: k_def)
  have rb: "round_bits r = min inf_bits ((e + 1074) * 2 ^ 52 + n)"
    using round_bits_eval [OF b] by (simp add: e_def n_def)
  have x: "0 \<le> r / pow2 e" using r pow2_pos [of e] by simp
  then have n0: "0 \<le> n" unfolding n_def by (rule round_half_even_nonneg)
  have half: "r / pow2 (- 1074) \<le> 1 / 2 \<longleftrightarrow> r \<le> pow2 (- 1075)"
    by (simp add: pow2_def field_simps)
  show ?thesis
  proof (cases "e = - 1074")
    case True
    have "round_bits r = 0 \<longleftrightarrow> n = 0"
      using n0 by (simp add: rb True inf_bits_val min_def)
    also have "\<dots> \<longleftrightarrow> r / pow2 (- 1074) \<le> 1 / 2"
      using round_half_even_zero_iff [OF x] by (simp add: n_def True)
    finally show ?thesis by (simp only: half)
  next
    case False
    then have e: "- 1073 \<le> e" "e = k - 52" by (simp_all add: e_def)
    have "1 * 4503599627370496 \<le> (e + 1074) * 4503599627370496"
      using e(1) by simp
    then have nz: "round_bits r \<noteq> 0"
      using n0 by (simp add: rb inf_bits_val min_def)
    have "pow2 (- 1075) < pow2 k" using e by (simp add: pow2_less_iff)
    then have "\<not> r \<le> pow2 (- 1075)" using b(1) by simp
    then show ?thesis using nz by simp
  qed
qed

subsection \<open>Comparison\<close>

lemma feq_refl: "\<not> is_nan x \<Longrightarrow> feq x x"
  by (simp add: feq_def)

lemma feq_sym: "feq x y \<Longrightarrow> feq y x"
  by (auto simp add: feq_def split: if_splits)

lemma flt_or_fge: "\<not> is_nan x \<Longrightarrow> \<not> is_nan y \<Longrightarrow> flt x y \<or> fge x y"
  by (auto simp add: flt_def fge_def fle_def feq_def)

lemma fge_not_flt: "fge x y \<Longrightarrow> \<not> flt x y"
  by (auto simp add: flt_def fge_def fle_def feq_def split: if_splits)

lemma feq_fge: "feq x y \<Longrightarrow> fge x y"
  by (simp add: fge_def fle_def feq_sym)

subsection \<open>Addition\<close>

lemma fadd_commute: "fadd x y = fadd y x"
  by (auto simp add: fadd_def Let_def add.commute is_inf_def)

lemma fadd_finite_not_nan:
  assumes "is_finite x" "is_finite y"
  shows "\<not> is_nan (fadd x y)"
  using assms
  by (simp add: fadd_def Let_def finite_not_nan finite_not_inf fzero_not_nan fround_not_nan)

subsection \<open>Literals\<close>

lemma floor_rat_numeral: "\<lfloor>numeral a / numeral b :: rat\<rfloor> = numeral a div numeral b"
  by (metis floor_divide_of_int_eq of_int_numeral)

lemma lit_eval:
  assumes "0 \<le> r" and "pow2 k \<le> r" and "r < pow2 (k + 1)"
  shows "lit r = mk_double False (min inf_bits ((max (- 1074) (k - 52) + 1074) * 2 ^ 52
      + round_half_even (r / pow2 (max (- 1074) (k - 52)))))"
  using assms(1) round_bits_eval [OF assms(2,3)] by (simp add: lit_def fround_def)

lemmas lit_simps = pow2_def round_half_even_def Let_def floor_rat_numeral inf_bits_val mk_double_def

lemma lit_0: "lit 0 = 0"
  by (simp add: lit_def fround_def round_bits_zero mk_double_def)

lemma lit_1: "lit 1 = 0x3FF0000000000000"
  by (simp add: lit_eval [where k = 0] lit_simps)

lemma lit_150: "lit 150 = 0x4062C00000000000"
  by (simp add: lit_eval [where k = 7] lit_simps)

lemma lit_120: "lit 120 = 0x405E000000000000"
  by (simp add: lit_eval [where k = 6] lit_simps)

lemma lit_6: "lit 6 = 0x4018000000000000"
  by (simp add: lit_eval [where k = 2] lit_simps)

lemma lit_0_3: "lit (3 / 10) = 0x3FD3333333333333"
  by (simp add: lit_eval [where k = "- 2"] lit_simps)

lemma lit_0_13: "lit (13 / 100) = 0x3FC0A3D70A3D70A4"
  by (simp add: lit_eval [where k = "- 3"] lit_simps)

lemma lit_0_2: "lit (1 / 5) = 0x3FC999999999999A"
  by (simp add: lit_eval [where k = "- 3"] lit_simps)

lemma lit_0_5: "lit (1 / 2) = 0x3FE0000000000000"
  by (simp add: lit_eval [where k = "- 1"] lit_simps)

lemma lit_2p400: "lit (2 ^ 400) = 0x58F0000000000000"
  by (simp add: lit_eval [where k = 400] lit_simps)


lemma lit_finite: "\<bar>r\<bar> \<le> 1 \<Longrightarrow> is_finite (lit r)"
  using round_bits_range [of "\<bar>r\<bar>"] round_bits_le_one [of "\<bar>r\<bar>"]
  by (simp add: lit_def fround_def is_finite_def mk_double_bits inf_bits_val)

lemmas cmp_simps = flt_def feq_def fle_def fge_def is_nan_def is_inf_def fbits_def fsign_def
  valof_def fmag_def Let_def pow2_def inf_bits_val

subsection \<open>Sign and magnitude\<close>

lemma fmag_nonneg: "0 \<le> fmag w"
  using fbits_range [of w] pow2_pos [of "- 1074"] pow2_pos [of "fbits w div 2 ^ 52 - 1075"]
  by (simp add: fmag_def Let_def)

lemma fmag_zero_iff: "fmag w = 0 \<longleftrightarrow> is_zero w"
proof (cases "fbits w div 2 ^ 52 = 0")
  case True
  then have "fbits w mod 2 ^ 52 = fbits w"
    using div_mult_mod_eq [of "fbits w" "2 ^ 52"] by simp
  then show ?thesis
    using True pow2_pos [of "- 1074"] by (simp add: fmag_def Let_def is_zero_def)
next
  case False
  have "0 \<le> fbits w mod 2 ^ 52" by simp
  then have "of_int (2 ^ 52 + fbits w mod 2 ^ 52) \<noteq> (0::rat)"
    by (simp only: of_int_eq_0_iff) simp
  moreover have "fbits w \<noteq> 0" using False by auto
  ultimately show ?thesis
    using False pow2_pos [of "fbits w div 2 ^ 52 - 1075"]
    by (simp add: fmag_def Let_def is_zero_def)
qed

lemma valof_sign: "fsign w \<Longrightarrow> valof w \<le> 0" "\<not> fsign w \<Longrightarrow> 0 \<le> valof w"
  using fmag_nonneg [of w] by (simp_all add: valof_def)

lemma valof_zero_iff: "valof w = 0 \<longleftrightarrow> is_zero w"
  by (simp add: valof_def fmag_zero_iff)

lemma valof_abs: "\<bar>valof w\<bar> = fmag w"
  using fmag_nonneg [of w] by (simp add: valof_def)

lemma valof_pos_sign: "0 < valof w \<Longrightarrow> \<not> fsign w"
  using valof_sign(1) [of w] by auto

lemma fneg_sign: "fsign (fneg w) = (\<not> fsign w)"
  using fbits_range [of w] by (simp add: fneg_def mk_double_sign)

lemma fneg_bits: "fbits (fneg w) = fbits w"
  using fbits_range [of w] by (simp add: fneg_def mk_double_bits)

lemma fneg_class:
  "is_nan (fneg w) = is_nan w" "is_inf (fneg w) = is_inf w"
  "is_finite (fneg w) = is_finite w" "is_zero (fneg w) = is_zero w"
  by (simp_all add: is_nan_def is_inf_def is_finite_def is_zero_def fneg_bits)

lemma fneg_mag: "fmag (fneg w) = fmag w"
  by (simp add: fmag_def fneg_bits)

lemma fneg_val: "valof (fneg w) = - valof w"
  by (simp add: valof_def fneg_sign fneg_mag)

lemma fround_bits: "0 \<le> r \<Longrightarrow> fbits (fround s r) = round_bits r"
  using round_bits_range [of r] by (simp add: fround_def mk_double_bits inf_bits_val)

lemma fround_zero_iff: "0 \<le> r \<Longrightarrow> is_zero (fround s r) \<longleftrightarrow> r \<le> pow2 (- 1075)"
  by (simp add: is_zero_def fround_bits round_bits_zero_iff)

lemma fround_zero: "is_zero (fround s 0)"
  by (simp add: is_zero_def fround_bits round_bits_zero)

lemma fround_finite_le_one: "0 \<le> r \<Longrightarrow> r \<le> 1 \<Longrightarrow> is_finite (fround s r)"
  by (simp add: is_finite_def fround_bits round_bits_le_one)

lemma fzero_sign: "fsign (fzero s) = s"
  by (simp add: fzero_def mk_double_sign)

lemma fzero_finite: "is_finite (fzero s)"
  by (simp add: is_finite_def fzero_def mk_double_bits inf_bits_val)

lemma zero_finite: "is_zero w \<Longrightarrow> is_finite w"
  by (simp add: is_zero_def is_finite_def inf_bits_val)

lemma finite_iff: "is_finite w \<longleftrightarrow> \<not> is_nan w \<and> \<not> is_inf w"
  by (auto simp add: is_finite_def is_nan_def is_inf_def)

subsection \<open>The floats 0.0 and 1.0\<close>

lemma zero_class: "fbits (lit 0) = 0" "\<not> fsign (lit 0)"
  by (simp_all add: lit_0 fbits_def fsign_def)

lemma zero_val: "valof (lit 0) = 0" "\<not> is_nan (lit 0)" "\<not> is_inf (lit 0)" "is_zero (lit 0)"
  by (simp_all add: valof_zero_iff is_zero_def is_nan_def is_inf_def zero_class inf_bits_val)

lemma one_class: "fbits (lit 1) = 1023 * 2 ^ 52" "\<not> fsign (lit 1)"
  by (simp_all add: lit_1 fbits_def fsign_def)

lemma one_val: "valof (lit 1) = 1" "\<not> is_nan (lit 1)" "\<not> is_inf (lit 1)" "\<not> is_zero (lit 1)"
  by (simp_all add: valof_def fmag_def is_zero_def is_nan_def is_inf_def one_class inf_bits_val
      pow2_def)

lemma is_zero_feq: "is_zero w \<Longrightarrow> feq w (lit 0)"
  using zero_finite [of w]
  by (simp add: feq_def finite_iff zero_val valof_zero_iff)

lemma feq_zero_iff: "feq w (lit 0) \<longleftrightarrow> is_zero w"
  by (auto simp add: is_zero_feq) (auto simp add: feq_def zero_val valof_zero_iff split: if_splits)

lemma nonneg_fge: "\<not> is_nan w \<Longrightarrow> \<not> fsign w \<Longrightarrow> fge w (lit 0)"
  using valof_sign(2) [of w]
  by (auto simp add: fge_def fle_def flt_def feq_def zero_val zero_class)

lemma nonpos_fle: "\<not> is_nan w \<Longrightarrow> fsign w \<Longrightarrow> fle w (lit 0)"
  using valof_sign(1) [of w]
  by (auto simp add: fle_def flt_def feq_def zero_val zero_class)

lemma unit_interval:
  assumes "fge h (lit 0)" and "fle h (lit 1)"
  shows "is_finite h \<and> 0 \<le> valof h \<and> valof h \<le> 1"
  using assms
  by (auto simp add: fge_def fle_def flt_def feq_def zero_val zero_class one_val one_class
      finite_iff split: if_splits)

lemma positive:
  assumes "flt (lit 0) t"
  shows "\<not> is_nan t \<and> \<not> fsign t \<and> \<not> is_zero t"
  using assms valof_zero_iff [of t] valof_pos_sign [of t] zero_finite [of t] finite_iff [of t]
  by (auto simp add: flt_def zero_val zero_class split: if_splits)

subsection \<open>Multiplication and division\<close>

lemma fmul_zero_left:
  assumes "is_zero x" and "is_finite y"
  shows "is_zero (fmul x y)"
proof -
  have "is_finite x" using assms(1) by (rule zero_finite)
  moreover have "fmag x = 0" using assms(1) by (simp add: fmag_zero_iff)
  ultimately show ?thesis
    using assms(2) by (simp add: fmul_def finite_iff fround_zero)
qed

lemma fmul_zero_right:
  assumes "is_finite x" and "is_zero y"
  shows "is_zero (fmul x y)"
proof -
  have "is_finite y" using assms(2) by (rule zero_finite)
  moreover have "fmag y = 0" using assms(2) by (simp add: fmag_zero_iff)
  ultimately show ?thesis
    using assms(1) by (simp add: fmul_def finite_iff fround_zero)
qed

lemma fmul_zero_nan:
  assumes "is_zero x" and "\<not> is_finite y"
  shows "is_nan (fmul x y)"
  using assms zero_finite [of x] by (auto simp add: fmul_def finite_iff qnan_is_nan)

lemma fdiv_nan: "is_nan x \<Longrightarrow> is_nan (fdiv x y)"
  by (simp add: fdiv_def qnan_is_nan)

lemma fdiv_zero:
  assumes "is_zero x" and "\<not> is_nan y"
  shows "is_zero (fdiv x y)"
proof -
  have "is_finite x" using assms(1) by (rule zero_finite)
  moreover have "fmag x = 0" using assms(1) by (simp add: fmag_zero_iff)
  ultimately show ?thesis
    using assms(2) by (simp add: fdiv_def finite_iff fround_zero fzero_is_zero)
qed

lemma fdiv_finite_cases:
  assumes "is_finite x" and "\<not> is_nan y"
  shows "fdiv x y = (if is_inf y then fzero (fsign x \<noteq> fsign y)
                     else fround (fsign x \<noteq> fsign y) (fmag x / fmag y))"
  using assms by (simp add: fdiv_def finite_iff)

lemma fmag_div_nonneg: "0 \<le> fmag x / fmag y"
  using fmag_nonneg [of x] fmag_nonneg [of y] by simp

lemma fdiv_not_nan: "is_finite x \<Longrightarrow> \<not> is_nan y \<Longrightarrow> \<not> is_nan (fdiv x y)"
  by (simp add: fdiv_finite_cases fzero_not_nan fround_not_nan fmag_div_nonneg)

lemma fdiv_sign: "is_finite x \<Longrightarrow> \<not> is_nan y \<Longrightarrow> fsign (fdiv x y) = (fsign x \<noteq> fsign y)"
  by (simp add: fdiv_finite_cases fzero_sign fround_sign fmag_div_nonneg)

lemma fdiv_zero_only:
  assumes "is_finite x" and "\<not> is_nan y" and "is_zero (fdiv x y)"
  shows "is_inf y \<or> fmag x / fmag y \<le> pow2 (- 1075)"
  using assms by (auto simp add: fdiv_finite_cases fround_zero_iff fmag_div_nonneg split: if_splits)

subsection \<open>The grid of finite floats\<close>

lemma fmag_grid: "\<exists>z::int. fmag w = of_int z * pow2 (- 1074)"
proof (cases "fbits w div 2 ^ 52 = 0")
  case True
  then have "fmag w = of_int (fbits w mod 2 ^ 52) * pow2 (- 1074)"
    by (simp add: fmag_def Let_def)
  then show ?thesis by blast
next
  case False
  define E where "E = fbits w div 2 ^ 52"
  define F where "F = fbits w mod 2 ^ 52"
  have "0 \<le> E" using fbits_range [of w] by (simp add: E_def pos_imp_zdiv_nonneg_iff)
  then have E: "0 \<le> E - 1" using False by (simp add: E_def)
  have "pow2 (E - 1075) = pow2 ((E - 1) + (- 1074))" by simp
  also have "\<dots> = pow2 (E - 1) * pow2 (- 1074)" by (rule pow2_add)
  also have "pow2 (E - 1) = of_int (2 ^ nat (E - 1))" using E by (simp add: pow2_of_nat)
  finally have p: "pow2 (E - 1075) = of_int (2 ^ nat (E - 1)) * pow2 (- 1074)" .
  have "fmag w = of_int (2 ^ 52 + F) * pow2 (E - 1075)"
    using False by (simp add: fmag_def Let_def E_def F_def)
  also have "\<dots> = of_int ((2 ^ 52 + F) * 2 ^ nat (E - 1)) * pow2 (- 1074)"
    by (subst p) (simp only: of_int_mult mult.assoc)
  finally show ?thesis by blast
qed

lemma valof_grid: "\<exists>z::int. valof w = of_int z * pow2 (- 1074)"
proof -
  obtain z :: int where z: "fmag w = of_int z * pow2 (- 1074)"
    using fmag_grid by blast
  show ?thesis
  proof (cases "fsign w")
    case True
    then have "valof w = of_int (- z) * pow2 (- 1074)" by (simp add: valof_def z)
    then show ?thesis by blast
  next
    case False
    then have "valof w = of_int z * pow2 (- 1074)" by (simp add: valof_def z)
    then show ?thesis by blast
  qed
qed

lemma one_minus_grid:
  assumes "valof h < 1"
  shows "pow2 (- 1074) \<le> 1 - valof h"
proof -
  obtain z :: int where z: "valof h = of_int z * pow2 (- 1074)"
    using valof_grid by blast
  have one: "(1::rat) = of_int (2 ^ 1074) * pow2 (- 1074)"
    by (simp add: pow2_def)
  have d: "1 - valof h = of_int (2 ^ 1074 - z) * pow2 (- 1074)"
    by (subst one) (simp add: z algebra_simps)
  have "0 < of_int (2 ^ 1074 - z) * pow2 (- 1074)"
    using assms d by simp
  then have "(0::rat) < of_int (2 ^ 1074 - z)"
    using pow2_pos [of "- 1074"] by (simp add: zero_less_mult_iff)
  then have "0 < 2 ^ 1074 - z" by (simp only: of_int_0_less_iff)
  then have "1 \<le> 2 ^ 1074 - z" by linarith
  then have "(of_int 1 :: rat) \<le> of_int (2 ^ 1074 - z)" by (simp only: of_int_le_iff)
  then have "(1::rat) \<le> of_int (2 ^ 1074 - z)" by simp
  then have "1 * pow2 (- 1074) \<le> of_int (2 ^ 1074 - z) * pow2 (- 1074)"
    using pow2_pos [of "- 1074"] by (simp only: mult_le_cancel_right_pos)
  then show ?thesis by (simp add: d)
qed

subsection \<open>The difference \<open>1.0 - h\<close> on the unit interval\<close>

lemma fsub_one:
  assumes "is_finite h" and "0 \<le> valof h" and "valof h \<le> 1"
  shows "is_finite (fsub (lit 1) h) \<and> \<not> fsign (fsub (lit 1) h) \<and>
         (is_zero (fsub (lit 1) h) \<longleftrightarrow> valof h = 1)"
proof (cases "valof h = 1")
  case True
  then have "fsub (lit 1) h = fzero False"
    using assms(1)
    by (simp add: fsub_def fadd_def Let_def one_val one_class fneg_class fneg_val finite_iff)
  then show ?thesis using True by (simp add: fzero_finite fzero_sign fzero_is_zero)
next
  case False
  define r where "r = 1 - valof h"
  have r: "0 < r" "r \<le> 1" using assms False by (simp_all add: r_def)
  have "pow2 (- 1074) \<le> r" unfolding r_def by (rule one_minus_grid) (use r in \<open>simp add: r_def\<close>)
  moreover have "pow2 (- 1075) < pow2 (- 1074)" by (simp add: pow2_less_iff)
  ultimately have nz: "\<not> r \<le> pow2 (- 1075)" by simp
  have "fsub (lit 1) h = fround False r"
    using assms(1) r
    by (simp add: fsub_def fadd_def Let_def one_val one_class fneg_class fneg_val finite_iff r_def)
  then show ?thesis
    using r nz False by (simp add: fround_finite_le_one fround_sign fround_zero_iff)
qed

subsection \<open>Division by zero\<close>

lemma py_truediv_zero: "is_zero y \<Longrightarrow> py_truediv x y = Inl ZeroDivisionError"
  by (simp add: py_truediv_def)

lemma py_truediv_nonzero: "\<not> is_zero y \<Longrightarrow> py_truediv x y = Inr (fdiv x y)"
  by (simp add: py_truediv_def)

subsection \<open>The inward current at its roots\<close>

lemma returns_zero_div:
  assumes "is_zero x" and "\<not> is_nan t" and "\<not> is_zero t"
  shows "returns_zero (py_truediv x t)"
  using assms by (simp add: py_truediv_nonzero returns_zero_def is_zero_feq fdiv_zero)

lemma returns_zero_div_nan:
  assumes "is_nan x"
  shows "\<not> returns_zero (py_truediv x t)"
  using assms by (simp add: py_truediv_def returns_zero_def feq_def fdiv_nan)

lemma one_finite: "is_finite (lit 1)"
  by (simp add: finite_iff one_val)

lemma zero_lit_finite: "is_finite (lit 0)"
  by (simp add: finite_iff zero_val)

lemma fmag_zero_lit: "fmag (lit 0) = 0"
  by (simp add: fmag_zero_iff zero_val)

lemma fmag_one_lit: "fmag (lit 1) = 1"
  using one_val(1) one_class(2) by (simp add: valof_def)

lemma fzero_lit: "fzero False = lit 0"
  by (simp add: fzero_def mk_double_def lit_0)

lemma fabs_one: "fabs (lit 1) = lit 1"
proof -
  have "mk_double False (1023 * 2 ^ 52) = lit 1"
    by (simp add: mk_double_def lit_1)
  then show ?thesis
    by (simp add: fabs_def one_class)
qed

lemma py_pow2_zero: "py_pow2 pw (lit 0) = Inr (lit 0)"
  by (simp add: py_pow2_def zero_val fzero_lit)

lemma py_pow2_one: "py_pow2 pw (lit 1) = Inr (lit 1)"
  by (simp add: py_pow2_def one_val fabs_one feq_refl)

lemma one_minus_zero_finite: "is_finite (fsub (lit 1) (lit 0))"
  using fsub_one [of "lit 0"] by (simp add: zero_lit_finite zero_val)

lemma one_minus_one_zero: "is_zero (fsub (lit 1) (lit 1))"
  using fsub_one [of "lit 1"] by (simp add: one_finite one_val)

lemma calc_J_in_at_zero:
  assumes "is_finite h" and "\<not> is_nan t" and "\<not> is_zero t"
  shows "returns_zero (calc_J_in pw (lit 0) h t)"
proof -
  have "is_zero (fmul (lit 0) (fsub (lit 1) (lit 0)))"
    using zero_val(4) one_minus_zero_finite by (rule fmul_zero_left)
  then have "is_zero (fmul h (fmul (lit 0) (fsub (lit 1) (lit 0))))"
    using assms(1) by (simp add: fmul_zero_right)
  then show ?thesis
    using assms(2,3) by (simp add: calc_J_in_def py_pow2_zero returns_zero_div)
qed

lemma calc_J_in_at_one:
  assumes "is_finite h" and "\<not> is_nan t" and "\<not> is_zero t"
  shows "returns_zero (calc_J_in pw (lit 1) h t)"
proof -
  have "is_zero (fmul (lit 1) (fsub (lit 1) (lit 1)))"
    using one_finite one_minus_one_zero by (rule fmul_zero_right)
  then have "is_zero (fmul h (fmul (lit 1) (fsub (lit 1) (lit 1))))"
    using assms(1) by (simp add: fmul_zero_right)
  then show ?thesis
    using assms(2,3) by (simp add: calc_J_in_def py_pow2_one returns_zero_div)
qed

lemma calc_J_in_closed_gate:
  assumes "\<not> is_nan t" and "\<not> is_zero t"
  shows "returns_zero (calc_J_in pw u (lit 0) t) \<longleftrightarrow>
    (case py_pow2 pw u of
       Inl err \<Rightarrow> False
     | Inr usq \<Rightarrow> is_finite (fmul usq (fsub (lit 1) u)))"
proof (cases "py_pow2 pw u")
  case (Inl err)
  then show ?thesis by (simp add: calc_J_in_def returns_zero_def)
next
  case (Inr usq)
  define C where "C = fmul usq (fsub (lit 1) u)"
  have J: "calc_J_in pw u (lit 0) t = py_truediv (fmul (lit 0) C) t"
    by (simp add: calc_J_in_def Inr C_def)
  show ?thesis
  proof (cases "is_finite C")
    case True
    then have "is_zero (fmul (lit 0) C)"
      using zero_val(4) by (simp add: fmul_zero_left)
    then have "returns_zero (calc_J_in pw u (lit 0) t)"
      using assms by (simp add: J returns_zero_div)
    then show ?thesis using True by (simp add: Inr C_def)
  next
    case False
    then have "is_nan (fmul (lit 0) C)"
      using zero_val(4) by (simp add: fmul_zero_nan)
    then have "\<not> returns_zero (calc_J_in pw u (lit 0) t)"
      by (simp add: J returns_zero_div_nan)
    then show ?thesis using False by (simp add: Inr C_def)
  qed
qed

subsection \<open>An overflow of the inward current\<close>

text \<open>The floats \<open>2\<^sup>4\<^sup>0\<^sup>0\<close>, \<open>2\<^sup>8\<^sup>0\<^sup>0\<close> and \<open>-2\<^sup>4\<^sup>0\<^sup>0\<close> by their bit patterns.\<close>

lemma big_class:
  "fbits (0x58F0000000000000 :: double) = 6408622269748215808"
  "\<not> fsign (0x58F0000000000000 :: double)"
  "fbits (0x71F0000000000000 :: double) = 8210062120696414208"
  "\<not> fsign (0x71F0000000000000 :: double)"
  "fbits (0xD8F0000000000000 :: double) = 6408622269748215808"
  "fsign (0xD8F0000000000000 :: double)"
  by (simp_all add: fbits_def fsign_def)

lemma big_mag:
  "fmag (0x58F0000000000000 :: double) = 2 ^ 400"
  "fmag (0x71F0000000000000 :: double) = 2 ^ 800"
  "fmag (0xD8F0000000000000 :: double) = 2 ^ 400"
  by (simp_all add: fmag_def big_class pow2_def)

lemma big_val: "valof (0x58F0000000000000 :: double) = 2 ^ 400"
  by (simp add: valof_def big_class big_mag)

lemma big_finite:
  "is_finite (0x58F0000000000000 :: double)"
  "is_finite (0x71F0000000000000 :: double)"
  "is_finite (0xD8F0000000000000 :: double)"
  by (simp_all add: is_finite_def big_class inf_bits_val)

lemma big_nonzero:
  "\<not> is_zero (0x58F0000000000000 :: double)" "\<not> is_zero (0x71F0000000000000 :: double)"
  by (simp_all add: is_zero_def big_class)

text \<open>
  The square of \<open>2\<^sup>4\<^sup>0\<^sup>0\<close> is the float \<open>2\<^sup>8\<^sup>0\<^sup>0\<close>. What follows holds for every C library
  whose \<^verbatim>\<open>pow\<close> returns it, without an error.
\<close>

lemma pow_big: "pow_correctly_rounded 0x58F0000000000000 = (0x71F0000000000000, ENONE)"
proof -
  have "(2::rat) ^ 400 * 2 ^ 400 = pow2 800" by (simp add: pow2_def)
  then have "round_bits (2 ^ 400 * 2 ^ 400) = 8210062120696414208"
    using round_bits_pow2 [of 800] by simp
  then have "fround False (2 ^ 400 * 2 ^ 400) = 0x71F0000000000000"
    by (simp add: fround_def mk_double_def)
  then show ?thesis
    using big_finite(2) big_nonzero(2)
    by (simp add: pow_correctly_rounded_def big_mag finite_iff)
qed

lemma big_square:
  assumes p: "pw 0x58F0000000000000 = (0x71F0000000000000, ENONE)"
  shows "py_pow2 pw 0x58F0000000000000 = Inr 0x71F0000000000000"
proof -
  have a: "fabs 0x58F0000000000000 = 0x58F0000000000000"
    by (simp add: fabs_def big_class mk_double_def)
  have n: "\<not> feq 0x58F0000000000000 (lit 1)"
    using big_finite(1) by (simp add: feq_def finite_iff big_val one_val)
  show ?thesis
    using big_finite(1,2) big_nonzero(1)
    by (simp add: py_pow2_def finite_iff a n p adjust_erange_def)
qed

lemma big_diff: "fsub (lit 1) 0x58F0000000000000 = 0xD8F0000000000000"
proof -
  have b: "pow2 399 \<le> 2 ^ 400 - 1" "(2::rat) ^ 400 - 1 < pow2 (399 + 1)"
    by (simp_all add: pow2_def)
  have "round_bits (2 ^ 400 - 1) = 6408622269748215808"
    using round_bits_eval [OF b] by (simp add: lit_simps)
  then have "fround True (2 ^ 400 - 1) = 0xD8F0000000000000"
    by (simp add: fround_def mk_double_def)
  then show ?thesis
    using big_finite(1)
    by (simp add: fsub_def fadd_def Let_def one_val one_class fneg_class fneg_val finite_iff
        big_val)
qed

lemma big_product: "fmul 0x71F0000000000000 0xD8F0000000000000 = finf True"
proof -
  have "pow2 1024 \<le> 2 ^ 800 * 2 ^ 400" by (simp add: pow2_def)
  then have "round_bits (2 ^ 800 * 2 ^ 400) = inf_bits" by (rule round_bits_overflow)
  then have "fround True (2 ^ 800 * 2 ^ 400) = finf True"
    by (simp add: fround_def finf_def)
  then show ?thesis
    using big_finite(2,3)
    by (simp add: fmul_def finite_iff big_class big_mag)
qed

lemma calc_J_in_big:
  assumes p: "pw 0x58F0000000000000 = (0x71F0000000000000, ENONE)"
  shows "calc_J_in pw 0x58F0000000000000 (lit 0) (lit (3 / 10)) = Inr qnan"
proof -
  have "fmul (lit 0) (finf True) = qnan"
    using finf_is_inf [of True] zero_val by (simp add: fmul_def)
  moreover have "\<not> is_zero (lit (3 / 10))"
    by (simp add: lit_0_3 is_zero_def fbits_def)
  ultimately show ?thesis
    using qnan_is_nan
    by (simp add: calc_J_in_def big_square [where pw = pw, OF p] big_diff big_product py_truediv_def fdiv_def)
qed


subsection \<open>An overflow of the square\<close>

lemma lit_2p600: "lit (2 ^ 600) = 0x6570000000000000"
  by (simp add: lit_eval [where k = 600] lit_simps)

lemma huge_class:
  "fbits (0x6570000000000000 :: double) = 7309342195222315008"
  "\<not> fsign (0x6570000000000000 :: double)"
  by (simp_all add: fbits_def fsign_def)

lemma huge_val:
  "fmag (0x6570000000000000 :: double) = 2 ^ 600"
  "is_finite (0x6570000000000000 :: double)"
  "\<not> is_zero (0x6570000000000000 :: double)"
  by (simp_all add: fmag_def is_finite_def is_zero_def huge_class inf_bits_val pow2_def)

lemma finf_not_zero: "\<not> is_zero (finf s)"
  by (simp add: is_zero_def finf_def mk_double_bits inf_bits_val)

text \<open>
  The square of \<open>2\<^sup>6\<^sup>0\<^sup>0\<close> is beyond every float. What follows holds for every C library
  whose \<^verbatim>\<open>pow\<close> returns \<open>+\<infinity>\<close> for it, with or without a range error.
\<close>

lemma pow_huge: "pow_correctly_rounded 0x6570000000000000 = (finf False, ERANGE)"
proof -
  have "pow2 1024 \<le> 2 ^ 600 * 2 ^ 600" by (simp add: pow2_def)
  then have "round_bits (2 ^ 600 * 2 ^ 600) = inf_bits" by (rule round_bits_overflow)
  then have "fround False (2 ^ 600 * 2 ^ 600) = finf False"
    by (simp add: fround_def finf_def)
  then show ?thesis
    by (simp add: pow_correctly_rounded_def huge_val finf_is_inf)
qed

lemma huge_square:
  assumes p: "pw 0x6570000000000000 = (finf False, e)" and e: "e \<noteq> EDOM"
  shows "py_pow2 pw 0x6570000000000000 = Inl OverflowError"
proof -
  have a: "fabs 0x6570000000000000 = 0x6570000000000000"
    by (simp add: fabs_def huge_class mk_double_def)
  have "valof (0x6570000000000000 :: double) = 2 ^ 600"
    by (simp add: valof_def huge_class huge_val)
  then have n: "\<not> feq 0x6570000000000000 (lit 1)"
    using huge_val(2) by (simp add: feq_def finite_iff one_val)
  have "adjust_erange (finf False) e = ERANGE"
    using e by (cases e) (simp_all add: adjust_erange_def finf_is_inf finf_not_zero)
  then show ?thesis
    using huge_val(2,3)
    by (simp add: py_pow2_def finite_iff a n p)
qed

lemma calc_J_in_huge:
  assumes "pw 0x6570000000000000 = (finf False, e)" and "e \<noteq> EDOM"
  shows "calc_J_in pw 0x6570000000000000 h t = Inl OverflowError"
  by (simp add: calc_J_in_def huge_square [where pw = pw, OF assms])

subsection \<open>Literals that are neither zero nor NaN\<close>

lemma lit_not_nan: "\<not> is_nan (lit r)"
  by (simp add: lit_def fround_not_nan)

lemma lit_zero_iff: "is_zero (lit r) \<longleftrightarrow> \<bar>r\<bar> \<le> pow2 (- 1075)"
  by (simp add: lit_def fround_zero_iff)

lemma params_nonzero:
  "\<not> is_zero (lit (3 / 10))" "\<not> is_zero (lit 6)" "\<not> is_zero (lit 120)" "\<not> is_zero (lit 150)"
  by (simp_all add: lit_zero_iff pow2_def)

lemma params_positive:
  "flt (lit 0) (lit 120)" "flt (lit 0) (lit 150)"
  by (simp_all add: lit_0 lit_120 lit_150 cmp_simps)

lemma gate_cases:
  "flt (lit 0) (lit (13 / 100))" "fge (lit (1 / 5)) (lit (13 / 100))"
  by (simp_all add: lit_0 lit_0_2 lit_0_13 cmp_simps)

subsection \<open>The sign of the gate derivative\<close>

lemma nonpos_or_zero_fle: "\<not> is_nan w \<Longrightarrow> fsign w \<or> is_zero w \<Longrightarrow> fle w (lit 0)"
  using nonpos_fle [of w] is_zero_feq [of w] by (auto simp add: fle_def)

lemma feq_one_iff: "is_finite h \<Longrightarrow> feq h (lit 1) \<longleftrightarrow> valof h = 1"
  by (simp add: feq_def finite_iff one_val)

lemma fadd_zeros:
  assumes "is_zero x" and "is_zero y"
  shows "is_zero (fadd x y)"
proof -
  have "valof x = 0" "valof y = 0"
    using assms by (simp_all add: valof_zero_iff)
  then show ?thesis
    using zero_finite [OF assms(1)] zero_finite [OF assms(2)]
    by (simp add: fadd_def Let_def finite_iff fzero_is_zero)
qed

lemma recovery_branch:
  assumes "fge h (lit 0)" and "fle h (lit 1)" and "flt (lit 0) t"
  shows "py_truediv (fsub (lit 1) h) t = Inr (fdiv (fsub (lit 1) h) t)"
    and "fge (fdiv (fsub (lit 1) h) t) (lit 0)"
    and "feq h (lit 1) \<Longrightarrow> is_zero (fdiv (fsub (lit 1) h) t)"
    and "is_zero (fdiv (fsub (lit 1) h) t) \<Longrightarrow> feq h (lit 1) \<or> is_inf t \<or>
      (0 < valof (fsub (lit 1) h) / valof t \<and> valof (fsub (lit 1) h) / valof t \<le> pow2 (- 1075))"
proof -
  define s where "s = fsub (lit 1) h"
  have h: "is_finite h" "0 \<le> valof h" "valof h \<le> 1"
    using unit_interval [OF assms(1,2)] by simp_all
  have s: "is_finite s" "\<not> fsign s" "is_zero s \<longleftrightarrow> valof h = 1"
    using fsub_one [OF h] by (simp_all add: s_def)
  have t: "\<not> is_nan t" "\<not> fsign t" "\<not> is_zero t"
    using positive [OF assms(3)] by simp_all
  have vs: "valof s = fmag s" "valof t = fmag t"
    using s(2) t(2) by (simp_all add: valof_def)
  show "py_truediv (fsub (lit 1) h) t = Inr (fdiv (fsub (lit 1) h) t)"
    using t(3) by (rule py_truediv_nonzero)
  have "\<not> is_nan (fdiv s t)" using s(1) t(1) by (rule fdiv_not_nan)
  moreover have "\<not> fsign (fdiv s t)" using s(1,2) t(1,2) by (simp add: fdiv_sign)
  ultimately show "fge (fdiv (fsub (lit 1) h) t) (lit 0)"
    unfolding s_def by (rule nonneg_fge)
  show "is_zero (fdiv (fsub (lit 1) h) t)" if "feq h (lit 1)"
    using that s(3) t(1) h(1) by (simp add: feq_one_iff fdiv_zero s_def)
  show "feq h (lit 1) \<or> is_inf t \<or>
      (0 < valof (fsub (lit 1) h) / valof t \<and> valof (fsub (lit 1) h) / valof t \<le> pow2 (- 1075))"
    if z: "is_zero (fdiv (fsub (lit 1) h) t)"
  proof (cases "feq h (lit 1) \<or> is_inf t")
    case True
    then show ?thesis by blast
  next
    case False
    then have "\<not> is_zero s" using s(3) h(1) by (simp add: feq_one_iff)
    then have "0 < fmag s" using fmag_nonneg [of s] fmag_zero_iff [of s] by simp
    moreover have "0 < fmag t" using t(3) fmag_nonneg [of t] fmag_zero_iff [of t] by simp
    ultimately have "0 < fmag s / fmag t" by simp
    moreover have "fmag s / fmag t \<le> pow2 (- 1075)"
      using fdiv_zero_only [OF s(1) t(1)] z False by (simp add: s_def)
    ultimately show ?thesis by (simp add: vs s_def [symmetric])
  qed
qed

lemma decay_branch:
  assumes "fge h (lit 0)" and "fle h (lit 1)" and "flt (lit 0) t"
  shows "py_truediv (fneg h) t = Inr (fdiv (fneg h) t)"
    and "fle (fdiv (fneg h) t) (lit 0)"
    and "feq h (lit 0) \<Longrightarrow> is_zero (fdiv (fneg h) t)"
    and "is_zero (fdiv (fneg h) t) \<Longrightarrow> feq h (lit 0) \<or> is_inf t \<or>
      (0 < valof h / valof t \<and> valof h / valof t \<le> pow2 (- 1075))"
proof -
  have h: "is_finite h" "0 \<le> valof h" "valof h \<le> 1"
    using unit_interval [OF assms(1,2)] by simp_all
  have n: "is_finite (fneg h)" using h(1) by (simp add: fneg_class)
  have t: "\<not> is_nan t" "\<not> fsign t" "\<not> is_zero t"
    using positive [OF assms(3)] by simp_all
  have vh: "valof h = fmag h" using h(2) valof_abs [of h] by simp
  have vt: "valof t = fmag t" using t(2) by (simp add: valof_def)
  show "py_truediv (fneg h) t = Inr (fdiv (fneg h) t)"
    using t(3) by (rule py_truediv_nonzero)
  have nn: "\<not> is_nan (fdiv (fneg h) t)" using n t(1) by (rule fdiv_not_nan)
  have "fsign (fdiv (fneg h) t) \<or> is_zero (fdiv (fneg h) t)"
  proof (cases "fsign h")
    case True
    then have "valof h = 0" using valof_sign(1) [of h] h(2) by simp
    then have "is_zero (fneg h)" by (simp add: valof_zero_iff fneg_class)
    then show ?thesis using t(1) by (simp add: fdiv_zero)
  next
    case False
    then show ?thesis using n t(1,2) by (simp add: fdiv_sign fneg_sign)
  qed
  with nn show "fle (fdiv (fneg h) t) (lit 0)" by (rule nonpos_or_zero_fle)
  show "is_zero (fdiv (fneg h) t)" if "feq h (lit 0)"
    using that t(1) by (simp add: feq_zero_iff fdiv_zero fneg_class)
  show "feq h (lit 0) \<or> is_inf t \<or>
      (0 < valof h / valof t \<and> valof h / valof t \<le> pow2 (- 1075))"
    if z: "is_zero (fdiv (fneg h) t)"
  proof (cases "feq h (lit 0) \<or> is_inf t")
    case True
    then show ?thesis by blast
  next
    case False
    then have "\<not> is_zero h" by (simp add: feq_zero_iff)
    then have "0 < fmag h" using fmag_nonneg [of h] fmag_zero_iff [of h] by simp
    moreover have "0 < fmag t" using t(3) fmag_nonneg [of t] fmag_zero_iff [of t] by simp
    ultimately have "0 < fmag h / fmag t" by simp
    moreover have "fmag h / fmag t \<le> pow2 (- 1075)"
      using fdiv_zero_only [OF n t(1)] z False by (simp add: fneg_mag)
    ultimately show ?thesis by (simp add: vh vt)
  qed
qed

subsection \<open>The least positive float\<close>

lemma lit_tiny: "lit (1 / 2 ^ 1074) = 1"
  by (simp add: lit_eval [where k = "- 1074"] lit_simps)

lemma tiny_class: "fbits (1 :: double) = 1" "\<not> fsign (1 :: double)"
  by (simp_all add: fbits_def fsign_def)

lemma tiny_val: "fmag (1 :: double) = pow2 (- 1074)" "valof (1 :: double) = pow2 (- 1074)"
  "is_finite (1 :: double)" "\<not> is_zero (1 :: double)"
  by (simp_all add: fmag_def valof_def is_finite_def is_zero_def tiny_class inf_bits_val)

lemma tiny_unit: "fge 1 (lit 0)" "fle 1 (lit 1)"
proof -
  show "fge 1 (lit 0)"
    using tiny_val(3) tiny_class(2) by (simp add: nonneg_fge finite_iff)
  have "valof (1 :: double) < valof (lit 1)"
    by (simp add: tiny_val one_val pow2_def)
  then show "fle 1 (lit 1)"
    using tiny_val(3) by (simp add: fle_def flt_def finite_iff one_val)
qed

lemma fmag_150: "fmag (lit 150) = 150" "is_finite (lit 150)"
  by (simp_all add: lit_150 fmag_def is_finite_def fbits_def inf_bits_val pow2_def)

lemma tiny_decay: "is_zero (fdiv (fneg 1) (lit 150))"
proof -
  have a: "pow2 (- 1074) / 150 \<le> pow2 (- 1075)" by (simp add: pow2_def)
  have b: "0 \<le> pow2 (- 1074) / 150" using pow2_pos [of "- 1074"] by simp
  have "is_zero (fround s (pow2 (- 1074) / 150))" for s
    using fround_zero_iff [OF b] a by blast
  then show ?thesis
    using tiny_val(3) fmag_150(2)
    by (simp add: fdiv_def fneg_class fneg_mag finite_iff tiny_val fmag_150)
qed

lemma finf_not_finite: "\<not> is_finite (finf s)"
  using finf_is_inf [of s] by (simp add: finite_iff)

subsection \<open>The store\<close>

lemma new_dict_ref: "fst (new_dict d hp) = length hp"
  by (simp add: new_dict_def)

lemma new_dict_heap: "snd (new_dict d hp) = hp @ [d]"
  by (simp add: new_dict_def)

lemma deref_new: "deref (snd (new_dict d hp)) (fst (new_dict d hp)) = Some d"
  by (simp add: new_dict_def deref_def)

lemma deref_fresh: "deref hp (fst (new_dict d hp)) = None"
  by (simp add: new_dict_def deref_def)

lemma deref_old: "r < length hp \<Longrightarrow> deref (snd (new_dict d hp)) r = deref hp r"
  by (simp add: new_dict_def deref_def nth_append)

lemma mutate_other:
  "mutate hp r f = Some hp' \<Longrightarrow> r' \<noteq> r \<Longrightarrow> deref hp' r' = deref hp r'"
  by (auto simp add: mutate_def deref_def split: if_splits)

lemma mutate_length: "mutate hp r f = Some hp' \<Longrightarrow> length hp' = length hp"
  by (auto simp add: mutate_def split: if_splits)

lemma mutate_defined: "r < length hp \<Longrightarrow> \<exists>hp'. mutate hp r f = Some hp'"
  by (simp add: mutate_def)

lemma two_calls:
  assumes "new_dict d hp = (r1, hp1)" and "new_dict d hp1 = (r2, hp2)"
  shows "r1 \<noteq> r2"
    and "deref hp2 r1 = Some d" and "deref hp2 r2 = Some d"
    and "\<exists>hp3. mutate hp2 r1 f = Some hp3 \<and> deref hp3 r2 = Some d \<and> deref hp3 r1 = Some (f d)"
    and "\<exists>hp3. mutate hp2 r2 f = Some hp3 \<and> deref hp3 r1 = Some d \<and> deref hp3 r2 = Some (f d)"
proof -
  have r: "r1 = length hp" "r2 = Suc (length hp)" and h: "hp2 = hp @ [d, d]"
    using assms by (auto simp add: new_dict_def)
  show "r1 \<noteq> r2" by (simp add: r)
  have n: "hp2 ! r1 = d" "hp2 ! r2 = d" "r1 < length hp2" "r2 < length hp2"
    by (simp_all add: r h nth_append)
  show "deref hp2 r1 = Some d" "deref hp2 r2 = Some d"
    using n by (simp_all add: deref_def)
  have "mutate hp2 r1 f = Some (hp2[r1 := f d])"
    using n by (simp add: mutate_def)
  moreover have "deref (hp2[r1 := f d]) r2 = Some d" "deref (hp2[r1 := f d]) r1 = Some (f d)"
    using n by (simp_all add: deref_def r)
  ultimately show
    "\<exists>hp3. mutate hp2 r1 f = Some hp3 \<and> deref hp3 r2 = Some d \<and> deref hp3 r1 = Some (f d)"
    by blast
  have "mutate hp2 r2 f = Some (hp2[r2 := f d])"
    using n by (simp add: mutate_def)
  moreover have "deref (hp2[r2 := f d]) r1 = Some d" "deref (hp2[r2 := f d]) r2 = Some (f d)"
    using n by (simp_all add: deref_def r)
  ultimately show
    "\<exists>hp3. mutate hp2 r2 f = Some hp3 \<and> deref hp3 r1 = Some d \<and> deref hp3 r2 = Some (f d)"
    by blast
qed

lemma call_after_mutation:
  assumes "new_dict d hp = (r1, hp1)"
  shows "\<exists>hp2. mutate hp1 r1 f = Some hp2 \<and>
    deref (snd (new_dict d hp2)) (fst (new_dict d hp2)) = Some d \<and>
    fst (new_dict d hp2) \<noteq> r1"
proof -
  have r: "r1 = length hp" and h: "hp1 = hp @ [d]"
    using assms by (auto simp add: new_dict_def)
  have "mutate hp1 r1 f = Some (hp1[r1 := f (hp1 ! r1)])"
    by (simp add: mutate_def r h)
  moreover have "fst (new_dict d (hp1[r1 := f (hp1 ! r1)])) \<noteq> r1"
    by (simp add: new_dict_ref r h)
  ultimately show ?thesis
    using deref_new by blast
qed

lemma dom_default_variables: "dom default_variables = {''u'', ''h''}"
  by (auto simp add: default_variables_def)

lemma dom_default_parameters:
  "dom default_parameters = {''tau_close'', ''tau_open'', ''tau_out'', ''tau_in'', ''u_gate''}"
  by (auto simp add: default_parameters_def)

subsection \<open>The magnitude determines the bits\<close>

lemma fmag_normal_bounds:
  assumes "1 \<le> fbits w div 2 ^ 52"
  shows "pow2 (fbits w div 2 ^ 52 - 1023) \<le> fmag w \<and> fmag w < pow2 (fbits w div 2 ^ 52 - 1022)"
proof -
  define E where "E = fbits w div 2 ^ 52"
  define F where "F = fbits w mod 2 ^ 52"
  have F: "0 \<le> F" "F < 2 ^ 52" by (simp_all add: F_def)
  have m: "fmag w = of_int (2 ^ 52 + F) * pow2 (E - 1075)"
    using assms by (simp add: fmag_def Let_def E_def F_def)
  have c: "0 < pow2 (E - 1075)" by (rule pow2_pos)
  have "pow2 (E - 1023) = pow2 (52 + (E - 1075))" by simp
  also have "\<dots> = pow2 52 * pow2 (E - 1075)" by (rule pow2_add)
  finally have lo: "pow2 (E - 1023) = 4503599627370496 * pow2 (E - 1075)"
    by (simp add: pow2_52)
  have "pow2 (E - 1022) = pow2 (53 + (E - 1075))" by simp
  also have "\<dots> = pow2 53 * pow2 (E - 1075)" by (rule pow2_add)
  finally have hi: "pow2 (E - 1022) = 9007199254740992 * pow2 (E - 1075)"
    by (simp add: pow2_53)
  have "(4503599627370496::rat) \<le> of_int (2 ^ 52 + F)"
    using F(1) by (simp add: of_int_add [symmetric] del: of_int_add)
  then have 1: "pow2 (E - 1023) \<le> fmag w"
    unfolding lo m using c by (simp only: mult_le_cancel_right) simp
  have "of_int (2 ^ 52 + F) < (9007199254740992::rat)"
  proof -
    have "2 ^ 52 + F < (9007199254740992::int)" using F(2) by simp
    then have "(of_int (2 ^ 52 + F)::rat) < of_int 9007199254740992"
      by (simp only: of_int_less_iff)
    then show ?thesis by simp
  qed
  then have 2: "fmag w < pow2 (E - 1022)"
    unfolding hi m using c by (simp only: mult_less_cancel_right) simp
  show ?thesis using 1 2 by (simp add: E_def)
qed

lemma fmag_subnormal_bound:
  assumes "fbits w div 2 ^ 52 = 0"
  shows "fmag w < pow2 (- 1022)"
proof -
  define F where "F = fbits w mod 2 ^ 52"
  have F: "F < 2 ^ 52" by (simp add: F_def)
  have m: "fmag w = of_int F * pow2 (- 1074)"
    using assms by (simp add: fmag_def Let_def F_def)
  have c: "0 < pow2 (- 1074)" by (rule pow2_pos)
  have "pow2 (- 1022) = pow2 (52 + (- 1074))" by simp
  also have "\<dots> = pow2 52 * pow2 (- 1074)" by (rule pow2_add)
  finally have hi: "pow2 (- 1022) = 4503599627370496 * pow2 (- 1074)"
    by (simp add: pow2_52)
  have "(of_int F::rat) < of_int 4503599627370496"
    using F by (simp only: of_int_less_iff) simp
  then have "(of_int F::rat) < 4503599627370496" by simp
  then show ?thesis
    unfolding hi m using c by (simp only: mult_less_cancel_right) simp
qed

lemma fmag_exponent_mono:
  assumes "fbits x div 2 ^ 52 < fbits y div 2 ^ 52"
  shows "fmag x < fmag y"
proof -
  define E where "E = fbits x div 2 ^ 52"
  define E' where "E' = fbits y div 2 ^ 52"
  have E0: "0 \<le> E" using fbits_range [of x] by (simp add: E_def pos_imp_zdiv_nonneg_iff)
  have lt: "E < E'" using assms by (simp add: E_def E'_def)
  then have "1 \<le> E'" using E0 by simp
  then have y: "pow2 (E' - 1023) \<le> fmag y"
    using fmag_normal_bounds [of y] by (simp add: E'_def)
  have "fmag x < pow2 (E' - 1023)"
  proof (cases "E = 0")
    case True
    then have "fmag x < pow2 (- 1022)"
      using fmag_subnormal_bound [of x] by (simp add: E_def)
    moreover have "pow2 (- 1022) \<le> pow2 (E' - 1023)"
      using \<open>1 \<le> E'\<close> by (intro pow2_mono) simp
    ultimately show ?thesis by simp
  next
    case False
    then have "1 \<le> E" using E0 by simp
    then have "fmag x < pow2 (E - 1022)"
      using fmag_normal_bounds [of x] by (simp add: E_def)
    moreover have "pow2 (E - 1022) \<le> pow2 (E' - 1023)"
      using lt by (intro pow2_mono) simp
    ultimately show ?thesis by simp
  qed
  then show ?thesis using y by simp
qed

lemma fmag_inj:
  assumes "fmag x = fmag y"
  shows "fbits x = fbits y"
proof -
  define E where "E = fbits x div 2 ^ 52"
  define F where "F = fbits x mod 2 ^ 52"
  define F' where "F' = fbits y mod 2 ^ 52"
  have "\<not> fbits x div 2 ^ 52 < fbits y div 2 ^ 52"
    using fmag_exponent_mono [of x y] assms by auto
  moreover have "\<not> fbits y div 2 ^ 52 < fbits x div 2 ^ 52"
    using fmag_exponent_mono [of y x] assms by auto
  ultimately have e: "fbits y div 2 ^ 52 = E"
    unfolding E_def by linarith
  have "F = F'"
  proof (cases "E = 0")
    case True
    have c: "pow2 (- 1074) \<noteq> 0" using pow2_pos [of "- 1074"] by simp
    have ex: "fbits x div 2 ^ 52 = 0" using True by (simp only: E_def)
    have ey: "fbits y div 2 ^ 52 = 0" using True e by simp
    have mx: "fmag x = of_int F * pow2 (- 1074)"
      unfolding fmag_def Let_def F_def by (simp only: ex simp_thms if_True)
    have my: "fmag y = of_int F' * pow2 (- 1074)"
      unfolding fmag_def Let_def F'_def by (simp only: ey simp_thms if_True)
    have "of_int F * pow2 (- 1074) = of_int F' * pow2 (- 1074)"
      using assms by (simp only: mx my)
    then have "(of_int F::rat) = of_int F'" using c by (simp only: mult_cancel_right) simp
    then show ?thesis by (simp only: of_int_eq_iff)
  next
    case False
    have c: "pow2 (E - 1075) \<noteq> 0" using pow2_pos [of "E - 1075"] by simp
    have ex: "fbits x div 2 ^ 52 \<noteq> 0" using False by (simp only: E_def) simp
    have ey: "fbits y div 2 ^ 52 \<noteq> 0" using False e by simp
    have mx: "fmag x = of_int (2 ^ 52 + F) * pow2 (E - 1075)"
      unfolding fmag_def Let_def F_def E_def by (simp only: ex simp_thms if_False)
    have my: "fmag y = of_int (2 ^ 52 + F') * pow2 (E - 1075)"
      unfolding fmag_def Let_def F'_def e [symmetric] by (simp only: ey simp_thms if_False)
    have "of_int (2 ^ 52 + F) * pow2 (E - 1075) = of_int (2 ^ 52 + F') * pow2 (E - 1075)"
      using assms by (simp only: mx my)
    then have "(of_int (2 ^ 52 + F)::rat) = of_int (2 ^ 52 + F')"
      using c by (simp only: mult_cancel_right) simp
    then have "2 ^ 52 + F = 2 ^ 52 + F'" by (simp only: of_int_eq_iff)
    then show ?thesis by simp
  qed
  moreover have "fbits x = E * 2 ^ 52 + F"
    unfolding E_def F_def by (simp only: div_mult_mod_eq)
  moreover have "fbits y = E * 2 ^ 52 + F'"
    unfolding e [symmetric] F'_def by (simp only: div_mult_mod_eq)
  ultimately show ?thesis by simp
qed

subsection \<open>Floats that are equal for Python\<close>

lemma inf_not_nan: "is_inf w \<Longrightarrow> \<not> is_nan w"
  by (simp add: is_inf_def is_nan_def)

lemma inf_not_zero: "is_inf w \<Longrightarrow> \<not> is_zero w"
  by (simp add: is_inf_def is_zero_def inf_bits_val)

lemma nan_not_zero: "is_nan w \<Longrightarrow> \<not> is_zero w"
  by (simp add: is_nan_def is_zero_def inf_bits_val)

lemma nan_not_inf: "is_nan w \<Longrightarrow> \<not> is_inf w"
  by (simp add: is_inf_def is_nan_def)

lemma same_float_cases:
  assumes "same_float x y"
  obtains (nan) "is_nan x" "is_nan y"
    | (inf) "is_inf x" "is_inf y" "fsign x = fsign y"
    | (fin) "is_finite x" "is_finite y" "valof x = valof y"
proof (cases "is_nan x \<and> is_nan y")
  case True
  then show ?thesis using nan by simp
next
  case False
  then have f: "feq x y" using assms by (auto simp add: same_float_def)
  then have n: "\<not> is_nan x" "\<not> is_nan y" by (simp_all add: feq_def)
  show ?thesis
  proof (cases "is_inf x")
    case True
    then have "is_inf y \<and> fsign x = fsign y" using f by (simp add: feq_def)
    then show ?thesis using True inf by simp
  next
    case False
    then have "\<not> is_inf y \<and> valof x = valof y" using f by (simp add: feq_def)
    then show ?thesis using False n fin by (simp add: finite_iff)
  qed
qed

lemma same_float_nan: "is_nan x \<Longrightarrow> is_nan y \<Longrightarrow> same_float x y"
  by (simp add: same_float_def)

lemma same_float_inf: "is_inf x \<Longrightarrow> is_inf y \<Longrightarrow> fsign x = fsign y \<Longrightarrow> same_float x y"
  by (simp add: same_float_def feq_def inf_not_nan)

lemma same_float_fin:
  "is_finite x \<Longrightarrow> is_finite y \<Longrightarrow> valof x = valof y \<Longrightarrow> same_float x y"
  by (simp add: same_float_def feq_def finite_iff)

lemma same_float_refl: "same_float x x"
  by (simp add: same_float_def feq_def)

lemma same_float_zeros: "is_zero x \<Longrightarrow> is_zero y \<Longrightarrow> same_float x y"
proof -
  assume z: "is_zero x" "is_zero y"
  have "valof x = 0" "valof y = 0" using z by (simp_all only: valof_zero_iff)
  then have "valof x = valof y" by simp
  then show ?thesis using z by (intro same_float_fin zero_finite)
qed

lemma valof_eq_mag: "valof x = valof y \<Longrightarrow> fmag x = fmag y"
  using valof_abs [of x] valof_abs [of y] by simp

lemma valof_eq_zero: "valof x = valof y \<Longrightarrow> is_zero x = is_zero y"
  using valof_zero_iff [of x] valof_zero_iff [of y] by simp

lemma valof_eq_sign:
  assumes "valof x = valof y" and "\<not> is_zero x"
  shows "fsign x = fsign y"
proof -
  have nz: "valof x \<noteq> 0" using assms(2) by (simp only: valof_zero_iff) simp
  show ?thesis
  proof (cases "fsign x")
    case True
    then have "valof x < 0" using valof_sign(1) [of x] nz by simp
    then have "\<not> 0 \<le> valof y" using assms(1) by simp
    then have "fsign y" using valof_sign(2) [of y] by blast
    then show ?thesis using True by simp
  next
    case False
    then have "0 < valof x" using valof_sign(2) [of x] nz by simp
    then have "\<not> valof y \<le> 0" using assms(1) by simp
    then have "\<not> fsign y" using valof_sign(1) [of y] by blast
    then show ?thesis using False by simp
  qed
qed

lemma same_float_class:
  assumes "same_float x y"
  shows "is_nan x = is_nan y" "is_inf x = is_inf y" "is_finite x = is_finite y"
    "is_zero x = is_zero y"
proof -
  show "is_nan x = is_nan y"
    using assms by (cases rule: same_float_cases) (simp_all add: finite_iff inf_not_nan)
  show "is_inf x = is_inf y"
    using assms by (cases rule: same_float_cases) (simp_all add: finite_iff nan_not_inf)
  show "is_finite x = is_finite y"
    using assms by (cases rule: same_float_cases) (simp_all add: finite_iff inf_not_nan)
  show "is_zero x = is_zero y"
    using assms
  proof (cases rule: same_float_cases)
    case nan
    then show ?thesis by (simp add: nan_not_zero)
  next
    case inf
    then show ?thesis by (simp add: inf_not_zero)
  next
    case fin
    show ?thesis using fin(3) by (rule valof_eq_zero)
  qed
qed

lemma same_float_inf_sign:
  assumes "same_float x y" and "is_inf x"
  shows "fsign x = fsign y"
  using assms(1)
proof (cases rule: same_float_cases)
  case nan
  then show ?thesis using assms(2) by (simp add: nan_not_inf)
next
  case inf
  then show ?thesis by simp
next
  case fin
  then show ?thesis using assms(2) by (simp add: finite_iff)
qed

lemma same_float_val:
  assumes "same_float x y" and "is_finite x"
  shows "valof x = valof y"
  using assms(1)
proof (cases rule: same_float_cases)
  case nan
  then show ?thesis using assms(2) by (simp add: finite_iff)
next
  case inf
  then show ?thesis using assms(2) by (simp add: finite_iff)
next
  case fin
  then show ?thesis by simp
qed

lemma same_float_mag:
  assumes "same_float x y" and "is_finite x"
  shows "fmag x = fmag y"
  using same_float_val [OF assms] by (rule valof_eq_mag)

lemma same_float_sign:
  assumes "same_float x y" and "\<not> is_nan x" and "\<not> is_zero x"
  shows "fsign x = fsign y"
proof (cases "is_inf x")
  case True
  then show ?thesis using assms(1) by (intro same_float_inf_sign)
next
  case False
  then have "is_finite x" using assms(2) by (simp add: finite_iff)
  then have "valof x = valof y" using assms(1) by (intro same_float_val)
  then show ?thesis using assms(3) by (rule valof_eq_sign)
qed

lemma fneg_cong:
  assumes "same_float x y"
  shows "same_float (fneg x) (fneg y)"
  using assms
proof (cases rule: same_float_cases)
  case nan
  then show ?thesis by (intro same_float_nan) (simp_all add: fneg_class)
next
  case inf
  then show ?thesis by (intro same_float_inf) (simp_all add: fneg_class fneg_sign)
next
  case fin
  then show ?thesis by (intro same_float_fin) (simp_all add: fneg_class fneg_val)
qed

lemma fround_cong:
  assumes "r \<noteq> 0 \<Longrightarrow> s = s'"
  shows "same_float (fround s r) (fround s' r)"
proof (cases "r = 0")
  case True
  then show ?thesis by (simp add: same_float_zeros fround_zero)
next
  case False
  then show ?thesis using assms by (simp add: same_float_refl)
qed

lemma fadd_cong:
  assumes X: "same_float x x'" and Y: "same_float y y'"
  shows "same_float (fadd x y) (fadd x' y')"
proof -
  note cx = same_float_class [OF X]
  note cy = same_float_class [OF Y]
  consider (nan) "is_nan x \<or> is_nan y"
    | (infx) "\<not> is_nan x" "\<not> is_nan y" "is_inf x"
    | (infy) "\<not> is_nan x" "\<not> is_nan y" "\<not> is_inf x" "is_inf y"
    | (fin) "is_finite x" "is_finite y"
    by (auto simp add: finite_iff)
  then show ?thesis
  proof cases
    case nan
    then have "fadd x y = qnan" by (auto simp add: fadd_def)
    moreover have "fadd x' y' = qnan" using nan cx(1) cy(1) by (auto simp add: fadd_def)
    ultimately show ?thesis by (simp add: same_float_refl)
  next
    case infx
    have sx: "fsign x' = fsign x" using same_float_inf_sign [OF X infx(3)] by simp
    have l: "fadd x y = (if is_inf y \<and> fsign x \<noteq> fsign y then qnan else finf (fsign x))"
      using infx by (simp add: fadd_def)
    have r: "fadd x' y' = (if is_inf y \<and> fsign x \<noteq> fsign y' then qnan else finf (fsign x))"
      using infx cx(1,2) cy(1,2) sx by (simp add: fadd_def)
    show ?thesis
    proof (cases "is_inf y")
      case True
      have "fsign y' = fsign y" using same_float_inf_sign [OF Y True] by simp
      then show ?thesis by (simp add: l r same_float_refl)
    next
      case False
      then show ?thesis by (simp add: l r same_float_refl)
    qed
  next
    case infy
    have sy: "fsign y' = fsign y" using same_float_inf_sign [OF Y infy(4)] by simp
    have "fadd x y = finf (fsign y)" using infy by (simp add: fadd_def)
    moreover have "fadd x' y' = finf (fsign y)"
      using infy cx(1,2) cy(1,2) sy by (simp add: fadd_def)
    ultimately show ?thesis by (simp add: same_float_refl)
  next
    case fin
    have vx: "valof x' = valof x" using same_float_val [OF X fin(1)] by simp
    have vy: "valof y' = valof y" using same_float_val [OF Y fin(2)] by simp
    have f': "is_finite x'" "is_finite y'" using fin cx(3) cy(3) by simp_all
    define r where "r = valof x + valof y"
    have l: "fadd x y = (if r = 0 then fzero (fsign x \<and> fsign y) else fround (r < 0) \<bar>r\<bar>)"
      using fin by (simp add: fadd_def finite_iff r_def Let_def)
    have r: "fadd x' y' = (if r = 0 then fzero (fsign x' \<and> fsign y') else fround (r < 0) \<bar>r\<bar>)"
      using f' by (simp add: fadd_def finite_iff r_def Let_def vx vy)
    show ?thesis
      by (simp add: l r same_float_refl same_float_zeros fzero_is_zero)
  qed
qed

lemma fsub_cong:
  assumes "same_float x x'" and "same_float y y'"
  shows "same_float (fsub x y) (fsub x' y')"
  unfolding fsub_def using assms(1) fneg_cong [OF assms(2)] by (rule fadd_cong)

subsection \<open>The operations on equal floats\<close>

lemma fmul_cong:
  assumes X: "same_float x x'" and Y: "same_float y y'"
  shows "same_float (fmul x y) (fmul x' y')"
proof -
  note cx = same_float_class [OF X]
  note cy = same_float_class [OF Y]
  consider (nan) "is_nan x \<or> is_nan y"
    | (inf) "\<not> is_nan x" "\<not> is_nan y" "is_inf x \<or> is_inf y"
    | (fin) "is_finite x" "is_finite y"
    by (auto simp add: finite_iff)
  then show ?thesis
  proof cases
    case nan
    then have "fmul x y = qnan" by (auto simp add: fmul_def)
    moreover have "fmul x' y' = qnan" using nan cx(1) cy(1) by (auto simp add: fmul_def)
    ultimately show ?thesis by (simp add: same_float_refl)
  next
    case inf
    have l: "fmul x y = (if is_zero x \<or> is_zero y then qnan else finf (fsign x \<noteq> fsign y))"
      using inf by (simp add: fmul_def)
    have r: "fmul x' y' =
        (if is_zero x \<or> is_zero y then qnan else finf (fsign x' \<noteq> fsign y'))"
      using inf cx(1,2,4) cy(1,2,4) by (simp add: fmul_def)
    show ?thesis
    proof (cases "is_zero x \<or> is_zero y")
      case True
      then show ?thesis by (simp add: l r same_float_refl)
    next
      case False
      have "fsign x' = fsign x" using same_float_sign [OF X inf(1)] False by simp
      moreover have "fsign y' = fsign y" using same_float_sign [OF Y inf(2)] False by simp
      ultimately show ?thesis using False by (simp add: l r same_float_refl)
    qed
  next
    case fin
    have mx: "fmag x' = fmag x" using same_float_mag [OF X fin(1)] by simp
    have my: "fmag y' = fmag y" using same_float_mag [OF Y fin(2)] by simp
    have f': "is_finite x'" "is_finite y'" using fin cx(3) cy(3) by simp_all
    have l: "fmul x y = fround (fsign x \<noteq> fsign y) (fmag x * fmag y)"
      using fin by (simp add: fmul_def finite_iff)
    have r: "fmul x' y' = fround (fsign x' \<noteq> fsign y') (fmag x * fmag y)"
      using f' by (simp add: fmul_def finite_iff mx my)
    have "(fsign x \<noteq> fsign y) = (fsign x' \<noteq> fsign y')" if nz: "fmag x * fmag y \<noteq> 0"
    proof -
      have zx: "\<not> is_zero x" using nz fmag_zero_iff [of x] by auto
      have zy: "\<not> is_zero y" using nz fmag_zero_iff [of y] by auto
      have "fsign x' = fsign x"
        using same_float_sign [OF X finite_not_nan [OF fin(1)] zx] by simp
      moreover have "fsign y' = fsign y"
        using same_float_sign [OF Y finite_not_nan [OF fin(2)] zy] by simp
      ultimately show ?thesis by simp
    qed
    then show ?thesis unfolding l r by (rule fround_cong)
  qed
qed

lemma fdiv_cong:
  assumes X: "same_float x x'" and Y: "same_float y y'" and nz: "\<not> is_zero y"
  shows "same_float (fdiv x y) (fdiv x' y')"
proof -
  note cx = same_float_class [OF X]
  note cy = same_float_class [OF Y]
  consider (nan) "is_nan x \<or> is_nan y"
    | (infx) "\<not> is_nan x" "\<not> is_nan y" "is_inf x"
    | (infy) "is_finite x" "\<not> is_nan y" "is_inf y"
    | (fin) "is_finite x" "is_finite y"
    by (auto simp add: finite_iff)
  then show ?thesis
  proof cases
    case nan
    then have "fdiv x y = qnan" by (auto simp add: fdiv_def)
    moreover have "fdiv x' y' = qnan" using nan cx(1) cy(1) by (auto simp add: fdiv_def)
    ultimately show ?thesis by (simp add: same_float_refl)
  next
    case infx
    have sx: "fsign x' = fsign x" using same_float_inf_sign [OF X infx(3)] by simp
    have sy: "fsign y' = fsign y" using same_float_sign [OF Y infx(2) nz] by simp
    have "fdiv x y = (if is_inf y then qnan else finf (fsign x \<noteq> fsign y))"
      using infx by (simp add: fdiv_def)
    moreover have "fdiv x' y' = (if is_inf y then qnan else finf (fsign x \<noteq> fsign y))"
      using infx cx(1,2) cy(1,2) sx sy by (simp add: fdiv_def)
    ultimately show ?thesis by (simp add: same_float_refl)
  next
    case infy
    have n: "\<not> is_nan x" "\<not> is_inf x" using infy(1) by (simp_all add: finite_iff)
    have "fdiv x y = fzero (fsign x \<noteq> fsign y)"
      using infy n by (simp add: fdiv_def)
    moreover have "fdiv x' y' = fzero (fsign x' \<noteq> fsign y')"
      using infy n cx(1,2) cy(1,2) by (simp add: fdiv_def)
    ultimately show ?thesis by (simp add: same_float_zeros fzero_is_zero)
  next
    case fin
    have mx: "fmag x' = fmag x" using same_float_mag [OF X fin(1)] by simp
    have my: "fmag y' = fmag y" using same_float_mag [OF Y fin(2)] by simp
    have f': "is_finite x'" "is_finite y'" using fin cx(3) cy(3) by simp_all
    have l: "fdiv x y = fround (fsign x \<noteq> fsign y) (fmag x / fmag y)"
      using fin by (simp add: fdiv_def finite_iff)
    have r: "fdiv x' y' = fround (fsign x' \<noteq> fsign y') (fmag x / fmag y)"
      using f' by (simp add: fdiv_def finite_iff mx my)
    have sy: "fsign y' = fsign y"
      using same_float_sign [OF Y finite_not_nan [OF fin(2)] nz] by simp
    have "(fsign x \<noteq> fsign y) = (fsign x' \<noteq> fsign y')" if q: "fmag x / fmag y \<noteq> 0"
    proof -
      have zx: "\<not> is_zero x" using q fmag_zero_iff [of x] by auto
      have "fsign x' = fsign x"
        using same_float_sign [OF X finite_not_nan [OF fin(1)] zx] by simp
      then show ?thesis using sy by simp
    qed
    then show ?thesis unfolding l r by (rule fround_cong)
  qed
qed

lemma flt_cong:
  assumes X: "same_float x x'" and Y: "same_float y y'"
  shows "flt x y = flt x' y'"
proof -
  note cx = same_float_class [OF X]
  note cy = same_float_class [OF Y]
  consider (nan) "is_nan x \<or> is_nan y"
    | (infx) "\<not> is_nan x" "\<not> is_nan y" "is_inf x"
    | (infy) "is_finite x" "\<not> is_nan y" "is_inf y"
    | (fin) "is_finite x" "is_finite y"
    by (auto simp add: finite_iff)
  then show ?thesis
  proof cases
    case nan
    then have "\<not> flt x y" by (auto simp add: flt_def)
    moreover have "\<not> flt x' y'" using nan cx(1) cy(1) by (auto simp add: flt_def)
    ultimately show ?thesis by simp
  next
    case infx
    have sx: "fsign x' = fsign x" using same_float_inf_sign [OF X infx(3)] by simp
    have l: "flt x y = (fsign x \<and> \<not> (is_inf y \<and> fsign y))"
      using infx by (simp add: flt_def)
    have r: "flt x' y' = (fsign x \<and> \<not> (is_inf y \<and> fsign y'))"
      using infx cx(1,2) cy(1,2) sx by (simp add: flt_def)
    show ?thesis
    proof (cases "is_inf y")
      case True
      have "fsign y' = fsign y" using same_float_inf_sign [OF Y True] by simp
      then show ?thesis by (simp add: l r)
    next
      case False
      then show ?thesis by (simp add: l r)
    qed
  next
    case infy
    have n: "\<not> is_nan x" "\<not> is_inf x" using infy(1) by (simp_all add: finite_iff)
    have sy: "fsign y' = fsign y" using same_float_inf_sign [OF Y infy(3)] by simp
    have "flt x y = (\<not> fsign y)" using infy n by (simp add: flt_def)
    moreover have "flt x' y' = (\<not> fsign y)"
      using infy n cx(1,2) cy(1,2) sy by (simp add: flt_def)
    ultimately show ?thesis by simp
  next
    case fin
    have vx: "valof x' = valof x" using same_float_val [OF X fin(1)] by simp
    have vy: "valof y' = valof y" using same_float_val [OF Y fin(2)] by simp
    have f': "is_finite x'" "is_finite y'" using fin cx(3) cy(3) by simp_all
    have "flt x y = (valof x < valof y)" using fin by (simp add: flt_def finite_iff)
    moreover have "flt x' y' = (valof x < valof y)"
      using f' by (simp add: flt_def finite_iff vx vy)
    ultimately show ?thesis by simp
  qed
qed

lemma same_outcome_refl: "same_outcome a a"
  by (cases a) (simp_all add: same_outcome_def same_float_refl)

lemma same_outcome_Inr: "same_outcome (Inr x) (Inr y) = same_float x y"
  by (simp add: same_outcome_def)

lemma py_truediv_cong:
  assumes X: "same_float x x'" and Y: "same_float y y'"
  shows "same_outcome (py_truediv x y) (py_truediv x' y')"
proof (cases "is_zero y")
  case True
  then have "is_zero y'" using same_float_class(4) [OF Y] by simp
  then show ?thesis using True by (simp add: py_truediv_zero same_outcome_refl)
next
  case False
  then have "\<not> is_zero y'" using same_float_class(4) [OF Y] by simp
  then show ?thesis
    using False fdiv_cong [OF X Y False]
    by (simp add: py_truediv_nonzero same_outcome_Inr)
qed

lemma fabs_cong:
  assumes "same_float x y" and "is_finite x"
  shows "fabs x = fabs y"
proof -
  have "fmag x = fmag y" using assms by (rule same_float_mag)
  then have "fbits x = fbits y" by (rule fmag_inj)
  then show ?thesis by (simp add: fabs_def)
qed

lemma py_pow2_cong:
  assumes X: "same_float x y"
  shows "same_outcome (py_pow2 pw x) (py_pow2 pw y)"
proof -
  note c = same_float_class [OF X]
  consider (nan) "is_nan x" | (inf) "\<not> is_nan x" "is_inf x" | (fin) "is_finite x"
    by (auto simp add: finite_iff)
  then show ?thesis
  proof cases
    case nan
    then have "py_pow2 pw x = Inr x" by (simp add: py_pow2_def)
    moreover have "py_pow2 pw y = Inr y" using nan c(1) by (simp add: py_pow2_def)
    ultimately show ?thesis using X by (simp add: same_outcome_Inr)
  next
    case inf
    then have "py_pow2 pw x = Inr (finf False)" by (simp add: py_pow2_def)
    moreover have "py_pow2 pw y = Inr (finf False)"
      using inf c(1,2) by (simp add: py_pow2_def)
    ultimately show ?thesis by (simp add: same_outcome_refl)
  next
    case fin
    have n: "\<not> is_nan x" "\<not> is_inf x" using fin by (simp_all add: finite_iff)
    have a: "fabs y = fabs x" using fabs_cong [OF X fin] by simp
    have "py_pow2 pw y = py_pow2 pw x"
      using n c(1,2,4) by (simp add: py_pow2_def a)
    then show ?thesis by (simp add: same_outcome_refl)
  qed
qed

section \<open>The equations\<close>

text \<open>
  C1. \<^verbatim>\<open>calc_dh(h, u, tau_close, tau_open, u_gate)\<close> returns \<open>(1 - h) / tau_open\<close> when
  \<open>u < u_gate\<close> and \<open>-h / tau_close\<close> when \<open>u \<ge> u_gate\<close>; the boundary \<open>u == u_gate\<close>
  takes the decay branch; for finite \<open>u\<close> and \<open>u_gate\<close> one of the two cases applies.
  Division is Python's, so a zero time constant raises on both sides of each equation.
\<close>

theorem calc_dh_branches:
  "(flt u u_gate \<longrightarrow>
      calc_dh h u tau_close tau_open u_gate = py_truediv (fsub (lit 1) h) tau_open) \<and>
   (fge u u_gate \<longrightarrow>
      calc_dh h u tau_close tau_open u_gate = py_truediv (fneg h) tau_close) \<and>
   (feq u u_gate \<longrightarrow>
      calc_dh h u tau_close tau_open u_gate = py_truediv (fneg h) tau_close) \<and>
   (is_finite u \<and> is_finite u_gate \<longrightarrow> flt u u_gate \<or> fge u u_gate)"
proof -
  have decay: "calc_dh h u tau_close tau_open u_gate = py_truediv (fneg h) tau_close"
    if "fge u u_gate"
    using fge_not_flt [OF that] by (simp add: calc_dh_def)
  show ?thesis
    using decay feq_fge [of u u_gate] flt_or_fge [of u u_gate]
    by (auto simp add: calc_dh_def finite_not_nan)
qed

theorem calc_dh_branches_witness:
  "flt (lit 0) (lit (13 / 100)) \<and>
   calc_dh (lit 1) (lit 0) (lit 150) (lit 120) (lit (13 / 100))
     = py_truediv (fsub (lit 1) (lit 1)) (lit 120) \<and>
   fge (lit (1 / 5)) (lit (13 / 100)) \<and>
   calc_dh (lit (1 / 2)) (lit (1 / 5)) (lit 150) (lit 120) (lit (13 / 100))
     = py_truediv (fneg (lit (1 / 2))) (lit 150) \<and>
   feq (lit (13 / 100)) (lit (13 / 100)) \<and>
   calc_dh (lit (1 / 2)) (lit (13 / 100)) (lit 150) (lit 120) (lit (13 / 100))
     = py_truediv (fneg (lit (1 / 2))) (lit 150) \<and>
   is_finite (lit (1 / 5)) \<and> is_finite (lit (13 / 100)) \<and>
   (flt (lit (1 / 5)) (lit (13 / 100)) \<or> fge (lit (1 / 5)) (lit (13 / 100)))"
proof -
  have a: "flt (lit 0) (lit (13 / 100))"
    by (simp add: lit_0 lit_0_13 cmp_simps)
  have b: "fge (lit (1 / 5)) (lit (13 / 100))"
    by (simp add: lit_0_2 lit_0_13 cmp_simps)
  have c: "feq (lit (13 / 100)) (lit (13 / 100))"
    by (simp add: lit_0_13 cmp_simps)
  have d: "is_finite (lit (1 / 5))" "is_finite (lit (13 / 100))"
    by (simp_all add: lit_finite)
  show ?thesis
    using a b c d
      calc_dh_branches [of "lit 0" "lit (13 / 100)" "lit 1" "lit 150" "lit 120"]
      calc_dh_branches [of "lit (1 / 5)" "lit (13 / 100)" "lit (1 / 2)" "lit 150" "lit 120"]
      calc_dh_branches [of "lit (13 / 100)" "lit (13 / 100)" "lit (1 / 2)" "lit 150" "lit 120"]
    by blast
qed

text \<open>
  C2. \<^verbatim>\<open>calc_J_in(u, h, tau_in)\<close> is the formula \<open>h * u\<^sup>2 * (1 - u) / tau_in\<close> evaluated in
  the order of the code: first \<open>C = u\<^sup>2 * (1 - u)\<close>, then \<open>h * C / tau_in\<close>. The two agree
  bit for bit, and raise the same error where the square overflows or \<open>tau_in\<close> is zero,
  whatever the \<^verbatim>\<open>pow\<close> of the platform returns for \<open>u\<^sup>2\<close>.
\<close>

theorem calc_J_in_formula:
  "calc_J_in pw u h tau_in =
     (case py_pow2 pw u of
        Inl err \<Rightarrow> Inl err
      | Inr usq \<Rightarrow> py_truediv (fmul h (fmul usq (fsub (lit 1) u))) tau_in)"
  by (simp add: calc_J_in_def Let_def split: sum.splits)

text \<open>
  C3. \<^verbatim>\<open>calc_J_out(u, tau_out)\<close> is \<open>-u / tau_out\<close>.
\<close>

theorem calc_J_out_formula:
  "calc_J_out u tau_out = py_truediv (fneg u) tau_out"
  by (simp add: calc_J_out_def)

text \<open>
  C4. For finite \<open>J_in\<close> and \<open>J_out\<close>, \<^verbatim>\<open>calc_rhs(J_in, J_out)\<close> is the float sum
  \<open>J_in + J_out\<close>, and swapping the arguments gives the same float, which Python's
  \<^verbatim>\<open>==\<close> also reports as equal.
\<close>

theorem calc_rhs_sum_commutes:
  assumes "is_finite J_in" and "is_finite J_out"
  shows "calc_rhs J_in J_out = fadd J_in J_out \<and>
         calc_rhs J_in J_out = calc_rhs J_out J_in \<and>
         feq (calc_rhs J_in J_out) (calc_rhs J_out J_in)"
proof -
  have "\<not> is_nan (fadd J_in J_out)"
    using assms by (rule fadd_finite_not_nan)
  then have "feq (fadd J_in J_out) (fadd J_in J_out)"
    by (rule feq_refl)
  then show ?thesis
    using fadd_commute [of J_in J_out] by (simp add: calc_rhs_def)
qed

theorem calc_rhs_sum_commutes_witness:
  "is_finite (lit (1 / 10)) \<and> is_finite (lit (1 / 5)) \<and>
   calc_rhs (lit (1 / 10)) (lit (1 / 5)) = fadd (lit (1 / 10)) (lit (1 / 5)) \<and>
   calc_rhs (lit (1 / 10)) (lit (1 / 5)) = calc_rhs (lit (1 / 5)) (lit (1 / 10)) \<and>
   feq (calc_rhs (lit (1 / 10)) (lit (1 / 5))) (calc_rhs (lit (1 / 5)) (lit (1 / 10)))"
proof -
  have a: "is_finite (lit (1 / 10))" by (simp add: lit_finite)
  have b: "is_finite (lit (1 / 5))" by (simp add: lit_finite)
  show ?thesis
    using a b calc_rhs_sum_commutes [OF a b] by blast
qed

text \<open>
  C5, as stated, fails for \<^verbatim>\<open>calc_J_in\<close>. With \<open>tau_in = 0.0\<close> and the finite
  \<open>u = 2\<^sup>6\<^sup>0\<^sup>0\<close>, the square \<open>u\<^sup>2\<close> overflows and \<^verbatim>\<open>u**2\<close> raises \<^verbatim>\<open>OverflowError\<close>:
  the division by the zero time constant is never reached, and what leaves the function
  is not the division's \<^verbatim>\<open>ZeroDivisionError\<close>. The C library is one that returns \<open>+\<infinity>\<close>
  for this square, as every library does.
\<close>

theorem zero_tau_in_overflow_first:
  "is_zero (lit 0) \<and> is_finite (lit (2 ^ 600)) \<and> is_finite (lit 1) \<and>
   calc_J_in pow_correctly_rounded (lit (2 ^ 600)) (lit 1) (lit 0) = Inl OverflowError \<and>
   calc_J_in pow_correctly_rounded (lit (2 ^ 600)) (lit 1) (lit 0) \<noteq> Inl ZeroDivisionError"
  unfolding lit_2p600
  using zero_val(4) huge_val(2) one_finite
  by (simp add: calc_J_in_huge [where pw = pow_correctly_rounded, OF pow_huge])

text \<open>
  C5, amended. A time constant that is zero (\<open>0.0\<close> or \<open>-0.0\<close>) is not guarded against:
  the division of Python raises \<^verbatim>\<open>ZeroDivisionError\<close>, and the error leaves the function
  as it is. \<^verbatim>\<open>calc_dh\<close> raises only when the zero constant is the one of the branch
  taken; \<^verbatim>\<open>calc_J_in\<close> raises it whenever \<^verbatim>\<open>u**2\<close> returns, and otherwise the error of
  \<^verbatim>\<open>u**2\<close>, which comes first.
\<close>

theorem zero_time_constant_raises:
  assumes "is_zero tau"
  shows "calc_J_out u tau = Inl ZeroDivisionError \<and>
    (flt u u_gate \<longrightarrow>
       calc_dh h u tau_close tau u_gate = Inl ZeroDivisionError \<and>
       calc_dh h u tau tau_open u_gate = py_truediv (fsub (lit 1) h) tau_open) \<and>
    (\<not> flt u u_gate \<longrightarrow>
       calc_dh h u tau tau_open u_gate = Inl ZeroDivisionError \<and>
       calc_dh h u tau_close tau u_gate = py_truediv (fneg h) tau_close) \<and>
    calc_J_in pw u h tau =
      (case py_pow2 pw u of Inl err \<Rightarrow> Inl err | Inr usq \<Rightarrow> Inl ZeroDivisionError)"
  using assms
  by (simp add: calc_J_out_def calc_dh_def calc_J_in_def py_truediv_zero Let_def
      split: sum.splits)

theorem zero_time_constant_raises_witness:
  "is_zero (lit 0) \<and>
   calc_J_out (lit 1) (lit 0) = Inl ZeroDivisionError \<and>
   flt (lit 0) (lit (13 / 100)) \<and>
   calc_dh (lit 1) (lit 0) (lit 150) (lit 0) (lit (13 / 100)) = Inl ZeroDivisionError \<and>
   \<not> flt (lit (1 / 5)) (lit (13 / 100)) \<and>
   calc_dh (lit 1) (lit (1 / 5)) (lit 0) (lit 120) (lit (13 / 100)) = Inl ZeroDivisionError \<and>
   calc_J_in pow_correctly_rounded (lit 1) (lit 1) (lit 0) = Inl ZeroDivisionError"
proof -
  have z: "is_zero (lit 0)" by (rule zero_val(4))
  have a: "flt (lit 0) (lit (13 / 100))" by (rule gate_cases(1))
  have b: "\<not> flt (lit (1 / 5)) (lit (13 / 100))"
    using gate_cases(2) by (rule fge_not_flt)
  have "calc_J_in pow_correctly_rounded (lit 1) (lit 1) (lit 0) = Inl ZeroDivisionError"
    using zero_time_constant_raises [OF z, where u = "lit 1" and h = "lit 1"
        and pw = pow_correctly_rounded]
    by (simp add: py_pow2_one)
  then show ?thesis
    using z a b
      zero_time_constant_raises [OF z, where u = "lit 1"]
      zero_time_constant_raises [OF z, where u = "lit 0" and u_gate = "lit (13 / 100)"
        and h = "lit 1" and tau_close = "lit 150"]
      zero_time_constant_raises [OF z, where u = "lit (1 / 5)" and u_gate = "lit (13 / 100)"
        and h = "lit 1" and tau_open = "lit 120"]
    by blast
qed

text \<open>
  C6. The default resting state \<open>u = 0.0\<close>, \<open>h = 1.0\<close> is a fixed point under the default
  parameters: \<^verbatim>\<open>calc_J_in(0.0, 1.0, 0.3)\<close> is \<open>0.0\<close>, \<^verbatim>\<open>calc_J_out(0.0, 6.0)\<close> is \<open>-0.0\<close>,
  which \<^verbatim>\<open>== 0.0\<close>, their sum and \<^verbatim>\<open>calc_rhs(0.0, 0.0)\<close> are \<open>0.0\<close>, and
  \<^verbatim>\<open>calc_dh(1.0, 0.0, 150.0, 120.0, 0.13)\<close> takes the recovery branch, as \<open>0.0 < 0.13\<close>,
  and is \<open>(1.0 - 1.0) / 120.0 = 0.0\<close>. The square \<open>0.0\<^sup>2\<close> is settled by CPython
  itself, so this holds on every platform.
\<close>

theorem resting_state_fixed_point:
  "calc_J_in pw (lit 0) (lit 1) (lit (3 / 10)) = Inr (lit 0) \<and>
   calc_J_out (lit 0) (lit 6) = Inr (fneg (lit 0)) \<and>
   feq (fneg (lit 0)) (lit 0) \<and>
   calc_rhs (lit 0) (lit 0) = lit 0 \<and>
   calc_rhs (lit 0) (fneg (lit 0)) = lit 0 \<and>
   feq (lit 0) (lit 0) \<and>
   flt (lit 0) (lit (13 / 100)) \<and>
   calc_dh (lit 1) (lit 0) (lit 150) (lit 120) (lit (13 / 100))
     = py_truediv (fsub (lit 1) (lit 1)) (lit 120) \<and>
   calc_dh (lit 1) (lit 0) (lit 150) (lit 120) (lit (13 / 100)) = Inr (lit 0)"
proof -
  have r0: "fround False 0 = lit 0" "fround True 0 = fneg (lit 0)"
    by (simp_all add: fround_def round_bits_zero fneg_def zero_class)
      (simp add: mk_double_def lit_0)
  have z0: "fzero False = lit 0"
    by (simp add: fzero_def mk_double_def lit_0)
  have nz: "is_zero (fneg (lit 0))"
    by (simp add: fneg_class zero_val)
  have nf: "is_finite (fneg (lit 0))" "fsign (fneg (lit 0))" "valof (fneg (lit 0)) = 0"
    by (simp_all add: fneg_class fneg_sign fneg_val zero_lit_finite zero_class zero_val)
  have sq: "py_pow2 pw (lit 0) = Inr (lit 0)"
    by (rule py_pow2_zero)
  have d1: "fsub (lit 1) (lit 0) = lit 1"
  proof -
    have "round_bits 1 = 1023 * 2 ^ 52"
      using round_bits_pow2 [of 0] by (simp add: pow2_def)
    then have "fround False 1 = lit 1"
      by (simp add: fround_def mk_double_def lit_1)
    then show ?thesis
      by (simp add: fsub_def fadd_def Let_def one_val fneg_class zero_val fneg_val)
  qed
  have m1: "fmul (lit 0) (lit 1) = lit 0" "fmul (lit 1) (lit 0) = lit 0"
    by (simp_all add: fmul_def zero_val one_val zero_class one_class fmag_zero_lit r0)
  have f03: "is_finite (lit (3 / 10))" "\<not> fsign (lit (3 / 10))"
    by (simp_all add: lit_0_3 is_finite_def fbits_def fsign_def inf_bits_val)
  have q: "fdiv (lit 0) (lit (3 / 10)) = lit 0"
    using f03
    by (simp add: fdiv_def zero_val zero_class finite_iff fmag_zero_lit r0)
  have jin: "calc_J_in pw (lit 0) (lit 1) (lit (3 / 10)) = Inr (lit 0)"
    by (simp add: calc_J_in_def sq d1 m1 py_truediv_nonzero params_nonzero q)
  have f6: "is_finite (lit 6)" "\<not> fsign (lit 6)"
    by (simp_all add: lit_6 is_finite_def fbits_def fsign_def inf_bits_val)
  have jout: "calc_J_out (lit 0) (lit 6) = Inr (fneg (lit 0))"
    using f6 nf
    by (simp add: calc_J_out_def py_truediv_nonzero params_nonzero fdiv_def finite_iff
        fneg_mag fmag_zero_lit r0)
  have rhs: "calc_rhs (lit 0) (lit 0) = lit 0" "calc_rhs (lit 0) (fneg (lit 0)) = lit 0"
    using nf by (simp_all add: calc_rhs_def fadd_def zero_val zero_class finite_iff z0)
  have d0: "fsub (lit 1) (lit 1) = lit 0"
    by (simp add: fsub_def fadd_def Let_def one_val one_class fneg_class fneg_val fneg_sign z0)
  have f120: "is_finite (lit 120)" "\<not> fsign (lit 120)"
    by (simp_all add: lit_120 is_finite_def fbits_def fsign_def inf_bits_val)
  have dh: "calc_dh (lit 1) (lit 0) (lit 150) (lit 120) (lit (13 / 100))
      = py_truediv (fsub (lit 1) (lit 1)) (lit 120)"
    by (simp add: calc_dh_def gate_cases)
  have dh0: "py_truediv (fsub (lit 1) (lit 1)) (lit 120) = Inr (lit 0)"
    using f120
    by (simp add: d0 py_truediv_nonzero params_nonzero fdiv_def zero_val zero_class finite_iff
        fmag_zero_lit r0)
  show ?thesis
    using jin jout rhs dh dh0 gate_cases(1) is_zero_feq [OF nz] is_zero_feq [OF zero_val(4)]
    by simp
qed

text \<open>
  C9, as stated, fails. With the gate closed (\<open>h = 0.0\<close>) and \<open>u = 2\<^sup>4\<^sup>0\<^sup>0\<close>, a finite float,
  \<open>u\<^sup>2 = 2\<^sup>8\<^sup>0\<^sup>0\<close> and \<open>1 - u = -2\<^sup>4\<^sup>0\<^sup>0\<close> are finite, their product \<open>C\<close> overflows to
  \<open>-\<infinity>\<close>, \<open>0.0 * C\<close> is NaN, and \<^verbatim>\<open>calc_J_in(u, 0.0, 0.3)\<close> returns NaN, which is not
  \<^verbatim>\<open>== 0.0\<close>. The C library is one that returns the float \<open>2\<^sup>8\<^sup>0\<^sup>0\<close> for this square, which
  is exact.
\<close>

theorem calc_J_in_closed_gate_nan:
  "is_finite (lit (2 ^ 400)) \<and> \<not> is_zero (lit (3 / 10)) \<and>
   calc_J_in pow_correctly_rounded (lit (2 ^ 400)) (lit 0) (lit (3 / 10)) = Inr qnan \<and>
   is_nan qnan \<and>
   \<not> returns_zero (calc_J_in pow_correctly_rounded (lit (2 ^ 400)) (lit 0) (lit (3 / 10)))"
  unfolding lit_2p400
  using calc_J_in_big [where pw = pow_correctly_rounded, OF pow_big] big_finite(1) params_nonzero(1) qnan_is_nan
  by (simp add: returns_zero_def feq_def)

text \<open>
  C9, amended. For \<open>tau_in\<close> neither zero nor NaN: \<^verbatim>\<open>calc_J_in(0.0, h, tau_in) == 0.0\<close> and
  \<^verbatim>\<open>calc_J_in(1.0, h, tau_in) == 0.0\<close> for every finite \<open>h\<close>; and
  \<^verbatim>\<open>calc_J_in(u, 0.0, tau_in) == 0.0\<close> exactly when \<open>u\<^sup>2\<close> does not raise and
  \<open>C = u\<^sup>2 * (1 - u)\<close> is finite.
\<close>

theorem calc_J_in_roots:
  assumes "\<not> is_nan tau_in" and "\<not> is_zero tau_in"
  shows "(is_finite h \<longrightarrow>
      returns_zero (calc_J_in pw (lit 0) h tau_in) \<and>
      returns_zero (calc_J_in pw (lit 1) h tau_in)) \<and>
    (returns_zero (calc_J_in pw u (lit 0) tau_in) \<longleftrightarrow>
      (case py_pow2 pw u of
         Inl err \<Rightarrow> False
       | Inr usq \<Rightarrow> is_finite (fmul usq (fsub (lit 1) u))))"
  using assms calc_J_in_at_zero [of h tau_in pw] calc_J_in_at_one [of h tau_in pw]
    calc_J_in_closed_gate [of tau_in pw u]
  by blast

theorem calc_J_in_roots_witness:
  "\<not> is_nan (lit (3 / 10)) \<and> \<not> is_zero (lit (3 / 10)) \<and> is_finite (lit (1 / 2)) \<and>
   returns_zero (calc_J_in pow_correctly_rounded (lit 0) (lit (1 / 2)) (lit (3 / 10))) \<and>
   returns_zero (calc_J_in pow_correctly_rounded (lit 1) (lit (1 / 2)) (lit (3 / 10))) \<and>
   returns_zero (calc_J_in pow_correctly_rounded (lit 1) (lit 0) (lit (3 / 10))) \<and>
   \<not> returns_zero (calc_J_in pow_correctly_rounded (lit (2 ^ 400)) (lit 0) (lit (3 / 10)))"
proof -
  have a: "\<not> is_nan (lit (3 / 10))" by (rule lit_not_nan)
  have b: "\<not> is_zero (lit (3 / 10))" by (rule params_nonzero(1))
  have c: "is_finite (lit (1 / 2))" by (simp add: lit_finite)
  have "is_finite (fmul (lit 1) (fsub (lit 1) (lit 1)))"
    using one_finite one_minus_one_zero by (simp add: fmul_zero_right zero_finite)
  then have d: "returns_zero (calc_J_in pow_correctly_rounded (lit 1) (lit 0) (lit (3 / 10)))"
    using calc_J_in_roots [OF a b, where u = "lit 1" and pw = pow_correctly_rounded]
    by (simp add: py_pow2_one)
  have "\<not> is_finite (fmul 0x71F0000000000000 (fsub (lit 1) 0x58F0000000000000))"
    by (simp add: big_diff big_product finf_not_finite)
  then have e: "\<not> returns_zero
      (calc_J_in pow_correctly_rounded 0x58F0000000000000 (lit 0) (lit (3 / 10)))"
    using calc_J_in_roots [OF a b, where u = "0x58F0000000000000"
        and pw = pow_correctly_rounded]
    by (simp add: big_square [where pw = pow_correctly_rounded, OF pow_big])
  show ?thesis
    unfolding lit_2p400
    using a b c d e
      calc_J_in_roots [OF a b, where h = "lit (1 / 2)" and pw = pow_correctly_rounded]
    by blast
qed

text \<open>
  C10, as stated, fails in its "only at" part. For the least positive float
  \<open>h = 2\<^sup>-\<^sup>1\<^sup>0\<^sup>7\<^sup>4\<close> (\<^verbatim>\<open>5e-324\<close>) on the decay branch, \<open>-h / 150.0\<close> underflows to \<open>-0.0\<close>:
  the derivative \<^verbatim>\<open>== 0.0\<close> although \<open>h\<close> is not zero.
\<close>

theorem calc_dh_zero_off_endpoint:
  "fge (lit (1 / 2 ^ 1074)) (lit 0) \<and> fle (lit (1 / 2 ^ 1074)) (lit 1) \<and>
   flt (lit 0) (lit 120) \<and> flt (lit 0) (lit 150) \<and>
   fge (lit (1 / 5)) (lit (13 / 100)) \<and>
   returns_zero (calc_dh (lit (1 / 2 ^ 1074)) (lit (1 / 5)) (lit 150) (lit 120) (lit (13 / 100))) \<and>
   \<not> feq (lit (1 / 2 ^ 1074)) (lit 0)"
proof -
  have "\<not> flt (lit (1 / 5)) (lit (13 / 100))"
    using gate_cases(2) by (rule fge_not_flt)
  then have "calc_dh 1 (lit (1 / 5)) (lit 150) (lit 120) (lit (13 / 100))
      = Inr (fdiv (fneg 1) (lit 150))"
    by (simp add: calc_dh_def py_truediv_nonzero params_nonzero)
  then have "returns_zero (calc_dh 1 (lit (1 / 5)) (lit 150) (lit 120) (lit (13 / 100)))"
    using tiny_decay by (simp add: returns_zero_def is_zero_feq)
  moreover have "\<not> feq 1 (lit 0)"
    using tiny_val(4) by (simp add: feq_zero_iff)
  ultimately show ?thesis
    unfolding lit_tiny
    using tiny_unit params_positive gate_cases(2) by blast
qed

text \<open>
  C10, amended. For \<open>0 \<le> h \<le> 1\<close> and positive time constants, \<^verbatim>\<open>calc_dh\<close> returns a
  float \<open>dh\<close>. When \<open>u < u_gate\<close>: \<open>dh \<ge> 0\<close>, and \<open>dh == 0\<close> at \<open>h == 1\<close>; when
  \<open>u \<ge> u_gate\<close>: \<open>dh \<le> 0\<close>, and \<open>dh == 0\<close> at \<open>h == 0\<close>. Away from these endpoints
  \<open>dh == 0\<close> happens only when the time constant is infinite or the quotient underflows.
\<close>

theorem calc_dh_points_inward:
  assumes "fge h (lit 0)" and "fle h (lit 1)"
    and "flt (lit 0) tau_open" and "flt (lit 0) tau_close"
  shows "(flt u u_gate \<longrightarrow>
      (case calc_dh h u tau_close tau_open u_gate of
         Inl err \<Rightarrow> False
       | Inr dh \<Rightarrow> fge dh (lit 0) \<and> (feq h (lit 1) \<longrightarrow> feq dh (lit 0)) \<and>
           (feq dh (lit 0) \<longrightarrow>
              feq h (lit 1) \<or> is_inf tau_open \<or> underflows (fsub (lit 1) h) tau_open))) \<and>
    (fge u u_gate \<longrightarrow>
      (case calc_dh h u tau_close tau_open u_gate of
         Inl err \<Rightarrow> False
       | Inr dh \<Rightarrow> fle dh (lit 0) \<and> (feq h (lit 0) \<longrightarrow> feq dh (lit 0)) \<and>
           (feq dh (lit 0) \<longrightarrow>
              feq h (lit 0) \<or> is_inf tau_close \<or> underflows h tau_close)))"
proof (intro conjI impI)
  assume "flt u u_gate"
  then have "calc_dh h u tau_close tau_open u_gate = Inr (fdiv (fsub (lit 1) h) tau_open)"
    using recovery_branch(1) [OF assms(1,2,3)] by (simp add: calc_dh_def)
  then show "case calc_dh h u tau_close tau_open u_gate of
         Inl err \<Rightarrow> False
       | Inr dh \<Rightarrow> fge dh (lit 0) \<and> (feq h (lit 1) \<longrightarrow> feq dh (lit 0)) \<and>
           (feq dh (lit 0) \<longrightarrow>
              feq h (lit 1) \<or> is_inf tau_open \<or> underflows (fsub (lit 1) h) tau_open)"
    using recovery_branch(2,3,4) [OF assms(1,2,3)]
    by (simp add: feq_zero_iff underflows_def)
next
  assume "fge u u_gate"
  then have "\<not> flt u u_gate" by (rule fge_not_flt)
  then have "calc_dh h u tau_close tau_open u_gate = Inr (fdiv (fneg h) tau_close)"
    using decay_branch(1) [OF assms(1,2,4)] by (simp add: calc_dh_def)
  then show "case calc_dh h u tau_close tau_open u_gate of
         Inl err \<Rightarrow> False
       | Inr dh \<Rightarrow> fle dh (lit 0) \<and> (feq h (lit 0) \<longrightarrow> feq dh (lit 0)) \<and>
           (feq dh (lit 0) \<longrightarrow>
              feq h (lit 0) \<or> is_inf tau_close \<or> underflows h tau_close)"
    using decay_branch(2,3,4) [OF assms(1,2,4)]
    by (simp add: feq_zero_iff underflows_def)
qed


theorem calc_dh_points_inward_witness:
  "fge (lit 1) (lit 0) \<and> fle (lit 1) (lit 1) \<and>
   flt (lit 0) (lit 120) \<and> flt (lit 0) (lit 150) \<and>
   flt (lit 0) (lit (13 / 100)) \<and> feq (lit 1) (lit 1) \<and>
   returns_zero (calc_dh (lit 1) (lit 0) (lit 150) (lit 120) (lit (13 / 100))) \<and>
   fge (lit 0) (lit 0) \<and> fle (lit 0) (lit 1) \<and>
   fge (lit (1 / 5)) (lit (13 / 100)) \<and> feq (lit 0) (lit 0) \<and>
   returns_zero (calc_dh (lit 0) (lit (1 / 5)) (lit 150) (lit 120) (lit (13 / 100)))"
proof -
  have e1: "feq (lit 1) (lit 1)" and e0: "feq (lit 0) (lit 0)"
    by (simp_all add: feq_refl one_val zero_val)
  have h1: "fge (lit 1) (lit 0)" "fle (lit 1) (lit 1)"
    using e1 by (simp_all add: nonneg_fge one_val one_class fle_def)
  have h0: "fge (lit 0) (lit 0)" "fle (lit 0) (lit 1)"
    using e0 by (simp_all add: feq_fge fle_def flt_def zero_val one_val)
  have a: "returns_zero (calc_dh (lit 1) (lit 0) (lit 150) (lit 120) (lit (13 / 100)))"
    using calc_dh_points_inward [OF h1 params_positive, of "lit 0" "lit (13 / 100)"]
      gate_cases(1) e1
    by (auto simp add: returns_zero_def split: sum.splits)
  have b: "returns_zero (calc_dh (lit 0) (lit (1 / 5)) (lit 150) (lit 120) (lit (13 / 100)))"
    using calc_dh_points_inward [OF h0 params_positive, of "lit (1 / 5)" "lit (13 / 100)"]
      gate_cases(2) e0
    by (auto simp add: returns_zero_def split: sum.splits)
  show ?thesis
    using e1 e0 h1 h0 a b params_positive gate_cases by blast
qed

text \<open>
  C7. \<^verbatim>\<open>get_variables()\<close> returns a dict with exactly \<open>u: 0.0\<close> and \<open>h: 1.0\<close>, and
  \<^verbatim>\<open>get_parameters()\<close> one with exactly \<open>tau_close: 150.0\<close>, \<open>tau_open: 120.0\<close>,
  \<open>tau_out: 6.0\<close>, \<open>tau_in: 0.3\<close> and \<open>u_gate: 0.13\<close>, whatever the store holds. Each call
  allocates its dict: the reference returned did not exist before the call, the
  references of two calls differ, a change made through one of them, by any function
  \<open>f\<close> on dicts, leaves the dict behind the other as it was, and a call made after such a
  change returns the defaults again. The values are the floats nearest to the decimal
  literals of the source; the last line gives their bit patterns.
\<close>

theorem defaults_fresh_copies:
  "deref (snd (get_variables hp)) (fst (get_variables hp))
     = Some [''u'' \<mapsto> lit 0, ''h'' \<mapsto> lit 1] \<and>
   deref (snd (get_parameters hp)) (fst (get_parameters hp))
     = Some [''tau_close'' \<mapsto> lit 150, ''tau_open'' \<mapsto> lit 120, ''tau_out'' \<mapsto> lit 6,
         ''tau_in'' \<mapsto> lit (3 / 10), ''u_gate'' \<mapsto> lit (13 / 100)] \<and>
   dom default_variables = {''u'', ''h''} \<and>
   dom default_parameters = {''tau_close'', ''tau_open'', ''tau_out'', ''tau_in'', ''u_gate''} \<and>
   deref hp (fst (get_variables hp)) = None \<and>
   deref hp (fst (get_parameters hp)) = None \<and>
   (let (r1, hp1) = get_variables hp; (r2, hp2) = get_variables hp1 in
      r1 \<noteq> r2 \<and>
      (case mutate hp2 r1 f of
         None \<Rightarrow> False
       | Some hp3 \<Rightarrow> deref hp3 r1 = Some (f default_variables) \<and>
           deref hp3 r2 = Some default_variables) \<and>
      (case mutate hp2 r2 f of
         None \<Rightarrow> False
       | Some hp3 \<Rightarrow> deref hp3 r2 = Some (f default_variables) \<and>
           deref hp3 r1 = Some default_variables)) \<and>
   (let (r1, hp1) = get_parameters hp; (r2, hp2) = get_parameters hp1 in
      r1 \<noteq> r2 \<and>
      (case mutate hp2 r1 f of
         None \<Rightarrow> False
       | Some hp3 \<Rightarrow> deref hp3 r1 = Some (f default_parameters) \<and>
           deref hp3 r2 = Some default_parameters) \<and>
      (case mutate hp2 r2 f of
         None \<Rightarrow> False
       | Some hp3 \<Rightarrow> deref hp3 r2 = Some (f default_parameters) \<and>
           deref hp3 r1 = Some default_parameters)) \<and>
   (let (r1, hp1) = get_variables hp in
      case mutate hp1 r1 f of
        None \<Rightarrow> False
      | Some hp2 \<Rightarrow>
          deref (snd (get_variables hp2)) (fst (get_variables hp2)) = Some default_variables \<and>
          fst (get_variables hp2) \<noteq> r1) \<and>
   (let (r1, hp1) = get_parameters hp in
      case mutate hp1 r1 f of
        None \<Rightarrow> False
      | Some hp2 \<Rightarrow>
          deref (snd (get_parameters hp2)) (fst (get_parameters hp2)) = Some default_parameters \<and>
          fst (get_parameters hp2) \<noteq> r1) \<and>
   lit 0 = 0 \<and> lit 1 = 0x3FF0000000000000 \<and>
   lit 150 = 0x4062C00000000000 \<and> lit 120 = 0x405E000000000000 \<and>
   lit 6 = 0x4018000000000000 \<and> lit (3 / 10) = 0x3FD3333333333333 \<and>
   lit (13 / 100) = 0x3FC0A3D70A3D70A4"
proof -
  have bits: "lit 0 = 0 \<and> lit 1 = 0x3FF0000000000000 \<and>
      lit 150 = 0x4062C00000000000 \<and> lit 120 = 0x405E000000000000 \<and>
      lit 6 = 0x4018000000000000 \<and> lit (3 / 10) = 0x3FD3333333333333 \<and>
      lit (13 / 100) = 0x3FC0A3D70A3D70A4"
    using lit_0 lit_1 lit_150 lit_120 lit_6 lit_0_3 lit_0_13 by (intro conjI)
  have two: "let (r1, hp1) = new_dict d hp; (r2, hp2) = new_dict d hp1 in
      r1 \<noteq> r2 \<and>
      (case mutate hp2 r1 f of
         None \<Rightarrow> False
       | Some hp3 \<Rightarrow> deref hp3 r1 = Some (f d) \<and> deref hp3 r2 = Some d) \<and>
      (case mutate hp2 r2 f of
         None \<Rightarrow> False
       | Some hp3 \<Rightarrow> deref hp3 r2 = Some (f d) \<and> deref hp3 r1 = Some d)" for d
  proof -
    obtain r1 hp1 where 1: "new_dict d hp = (r1, hp1)" by (cases "new_dict d hp")
    obtain r2 hp2 where 2: "new_dict d hp1 = (r2, hp2)" by (cases "new_dict d hp1")
    show ?thesis
      using two_calls(1) [OF 1 2] two_calls(4) [OF 1 2, of f] two_calls(5) [OF 1 2, of f]
      by (auto simp add: 1 2)
  qed
  have again: "let (r1, hp1) = new_dict d hp in
      case mutate hp1 r1 f of
        None \<Rightarrow> False
      | Some hp2 \<Rightarrow>
          deref (snd (new_dict d hp2)) (fst (new_dict d hp2)) = Some d \<and>
          fst (new_dict d hp2) \<noteq> r1" for d
  proof -
    obtain r1 hp1 where 1: "new_dict d hp = (r1, hp1)" by (cases "new_dict d hp")
    show ?thesis
      using call_after_mutation [OF 1, of f] by (auto simp add: 1)
  qed
  have main: "deref (snd (get_variables hp)) (fst (get_variables hp))
     = Some [''u'' \<mapsto> lit 0, ''h'' \<mapsto> lit 1] \<and>
   deref (snd (get_parameters hp)) (fst (get_parameters hp))
     = Some [''tau_close'' \<mapsto> lit 150, ''tau_open'' \<mapsto> lit 120, ''tau_out'' \<mapsto> lit 6,
         ''tau_in'' \<mapsto> lit (3 / 10), ''u_gate'' \<mapsto> lit (13 / 100)] \<and>
   dom default_variables = {''u'', ''h''} \<and>
   dom default_parameters = {''tau_close'', ''tau_open'', ''tau_out'', ''tau_in'', ''u_gate''} \<and>
   deref hp (fst (get_variables hp)) = None \<and>
   deref hp (fst (get_parameters hp)) = None \<and>
   (let (r1, hp1) = get_variables hp; (r2, hp2) = get_variables hp1 in
      r1 \<noteq> r2 \<and>
      (case mutate hp2 r1 f of
         None \<Rightarrow> False
       | Some hp3 \<Rightarrow> deref hp3 r1 = Some (f default_variables) \<and>
           deref hp3 r2 = Some default_variables) \<and>
      (case mutate hp2 r2 f of
         None \<Rightarrow> False
       | Some hp3 \<Rightarrow> deref hp3 r2 = Some (f default_variables) \<and>
           deref hp3 r1 = Some default_variables)) \<and>
   (let (r1, hp1) = get_parameters hp; (r2, hp2) = get_parameters hp1 in
      r1 \<noteq> r2 \<and>
      (case mutate hp2 r1 f of
         None \<Rightarrow> False
       | Some hp3 \<Rightarrow> deref hp3 r1 = Some (f default_parameters) \<and>
           deref hp3 r2 = Some default_parameters) \<and>
      (case mutate hp2 r2 f of
         None \<Rightarrow> False
       | Some hp3 \<Rightarrow> deref hp3 r2 = Some (f default_parameters) \<and>
           deref hp3 r1 = Some default_parameters)) \<and>
   (let (r1, hp1) = get_variables hp in
      case mutate hp1 r1 f of
        None \<Rightarrow> False
      | Some hp2 \<Rightarrow>
          deref (snd (get_variables hp2)) (fst (get_variables hp2)) = Some default_variables \<and>
          fst (get_variables hp2) \<noteq> r1) \<and>
   (let (r1, hp1) = get_parameters hp in
      case mutate hp1 r1 f of
        None \<Rightarrow> False
      | Some hp2 \<Rightarrow>
          deref (snd (get_parameters hp2)) (fst (get_parameters hp2)) = Some default_parameters \<and>
          fst (get_parameters hp2) \<noteq> r1)"
    using two [of default_variables] two [of default_parameters]
      again [of default_variables] again [of default_parameters]
      deref_new [of default_variables hp] deref_new [of default_parameters hp]
      deref_fresh [of hp default_variables] deref_fresh [of hp default_parameters]
      dom_default_variables dom_default_parameters
    unfolding get_variables_def get_parameters_def
    by (simp only: default_variables_def [symmetric] default_parameters_def [symmetric])
  show ?thesis
    using main bits by (elim conjE, intro conjI) assumption+
qed

text \<open>
  C8. The four equations are functions of their float arguments and of nothing else: the
  source reads no global, attribute or file, and the embedding gives them no store. The
  platform's \<^verbatim>\<open>pow\<close>, which \<^verbatim>\<open>u**2\<close> calls, is taken to be a function of its argument.
  Arguments that are equal for Python, that is equal under \<^verbatim>\<open>==\<close> (which identifies \<open>0.0\<close>
  and \<open>-0.0\<close>) or both NaN, give results that are equal in the same sense: the same
  exception, or floats equal under \<^verbatim>\<open>==\<close> or both NaN. The two table functions, the only
  ones that touch the store, return the same dict from any two stores, leave every
  object of the store as it was, and allocate exactly one object, the dict returned.
\<close>

theorem equal_arguments_equal_results:
  assumes "same_float u u'" and "same_float h h'"
    and "same_float tau_close tau_close'" and "same_float tau_open tau_open'"
    and "same_float u_gate u_gate'" and "same_float tau_in tau_in'"
    and "same_float tau_out tau_out'"
    and "same_float J_in J_in'" and "same_float J_out J_out'"
  shows "same_float (calc_rhs J_in J_out) (calc_rhs J_in' J_out') \<and>
    same_outcome (calc_dh h u tau_close tau_open u_gate)
      (calc_dh h' u' tau_close' tau_open' u_gate') \<and>
    same_outcome (calc_J_in pw u h tau_in) (calc_J_in pw u' h' tau_in') \<and>
    same_outcome (calc_J_out u tau_out) (calc_J_out u' tau_out') \<and>
    deref (snd (get_variables hp)) (fst (get_variables hp))
      = deref (snd (get_variables hp')) (fst (get_variables hp')) \<and>
    deref (snd (get_parameters hp)) (fst (get_parameters hp))
      = deref (snd (get_parameters hp')) (fst (get_parameters hp')) \<and>
    take (length hp) (snd (get_variables hp)) = hp \<and>
    length (snd (get_variables hp)) = length hp + 1 \<and>
    take (length hp) (snd (get_parameters hp)) = hp \<and>
    length (snd (get_parameters hp)) = length hp + 1"
proof -
  have one: "same_float (lit 1) (lit 1)" by (rule same_float_refl)
  have rhs: "same_float (calc_rhs J_in J_out) (calc_rhs J_in' J_out')"
    unfolding calc_rhs_def using assms(8,9) by (rule fadd_cong)
  have dh: "same_outcome (calc_dh h u tau_close tau_open u_gate)
      (calc_dh h' u' tau_close' tau_open' u_gate')"
  proof (cases "flt u u_gate")
    case True
    then have "flt u' u_gate'" using flt_cong [OF assms(1,5)] by simp
    then show ?thesis
      using True py_truediv_cong [OF fsub_cong [OF one assms(2)] assms(4)]
      by (simp add: calc_dh_def)
  next
    case False
    then have "\<not> flt u' u_gate'" using flt_cong [OF assms(1,5)] by simp
    then show ?thesis
      using False py_truediv_cong [OF fneg_cong [OF assms(2)] assms(3)]
      by (simp add: calc_dh_def)
  qed
  have jin: "same_outcome (calc_J_in pw u h tau_in) (calc_J_in pw u' h' tau_in')"
  proof (cases "py_pow2 pw u")
    case (Inl e)
    then have "py_pow2 pw u' = Inl e"
      using py_pow2_cong [OF assms(1), of pw]
      by (cases "py_pow2 pw u'") (simp_all add: same_outcome_def)
    then show ?thesis using Inl by (simp add: calc_J_in_def same_outcome_refl)
  next
    case (Inr usq)
    then obtain usq' where sq': "py_pow2 pw u' = Inr usq'" and s: "same_float usq usq'"
      using py_pow2_cong [OF assms(1), of pw]
      by (cases "py_pow2 pw u'") (simp_all add: same_outcome_def)
    have C: "same_float (fmul usq (fsub (lit 1) u)) (fmul usq' (fsub (lit 1) u'))"
      using s fsub_cong [OF one assms(1)] by (rule fmul_cong)
    have "same_float (fmul h (fmul usq (fsub (lit 1) u)))
        (fmul h' (fmul usq' (fsub (lit 1) u')))"
      using assms(2) C by (rule fmul_cong)
    then show ?thesis
      using Inr sq' assms(6) by (simp add: calc_J_in_def Let_def py_truediv_cong)
  qed
  have jout: "same_outcome (calc_J_out u tau_out) (calc_J_out u' tau_out')"
    unfolding calc_J_out_def using fneg_cong [OF assms(1)] assms(7) by (rule py_truediv_cong)
  have store: "deref (snd (new_dict d hp)) (fst (new_dict d hp))
      = deref (snd (new_dict d hp')) (fst (new_dict d hp'))"
    "take (length hp) (snd (new_dict d hp)) = hp"
    "length (snd (new_dict d hp)) = length hp + 1" for d
    by (simp_all add: new_dict_def deref_def)
  show ?thesis
    using rhs dh jin jout store [of default_variables] store [of default_parameters]
    by (simp only: get_variables_def get_parameters_def simp_thms)
qed

theorem equal_arguments_equal_results_witness:
  "same_float (lit 0) (fneg (lit 0)) \<and> lit 0 \<noteq> fneg (lit 0) \<and>
   same_float (lit 1) (lit 1) \<and> same_float (lit 150) (lit 150) \<and>
   same_float (lit 120) (lit 120) \<and> same_float (lit (13 / 100)) (lit (13 / 100)) \<and>
   same_float (lit (3 / 10)) (lit (3 / 10)) \<and> same_float (lit 6) (lit 6) \<and>
   same_float (calc_rhs (lit 0) (lit 0)) (calc_rhs (fneg (lit 0)) (fneg (lit 0))) \<and>
   same_outcome (calc_dh (lit 1) (lit 0) (lit 150) (lit 120) (lit (13 / 100)))
     (calc_dh (lit 1) (fneg (lit 0)) (lit 150) (lit 120) (lit (13 / 100))) \<and>
   same_outcome (calc_J_in pow_correctly_rounded (lit 0) (lit 1) (lit (3 / 10)))
     (calc_J_in pow_correctly_rounded (fneg (lit 0)) (lit 1) (lit (3 / 10))) \<and>
   same_outcome (calc_J_out (lit 0) (lit 6)) (calc_J_out (fneg (lit 0)) (lit 6)) \<and>
   deref (snd (get_variables [])) (fst (get_variables []))
     = deref (snd (get_variables [default_parameters]))
         (fst (get_variables [default_parameters]))"
proof -
  have z: "same_float (lit 0) (fneg (lit 0))"
    by (rule same_float_zeros) (simp_all add: zero_val fneg_class)
  have d: "lit 0 \<noteq> fneg (lit 0)"
    using zero_class(2) fneg_sign [of "lit 0"] by auto
  show ?thesis
    using equal_arguments_equal_results [OF z same_float_refl same_float_refl
        same_float_refl same_float_refl same_float_refl same_float_refl z z,
        where h = "lit 1" and tau_close = "lit 150" and tau_open = "lit 120"
          and u_gate = "lit (13 / 100)" and tau_in = "lit (3 / 10)" and tau_out = "lit 6"
          and pw = pow_correctly_rounded and hp = "[]" and hp' = "[default_parameters]"]
      z d
    by (simp add: same_float_refl)
qed

end
